theory Spec2Isabelle
  imports Complex_Main "HOL-Library.Multiset"
begin

section \<open>Conventions of the embedding\<close>

text \<open>
  The fleet code is Python. Its unbounded integers are \<open>int\<close>, its strings are
  \<open>string\<close>, its dictionaries are maps, and every exception a modelled path can raise is a
  value of \<open>py_error\<close> in the left summand of the result.
\<close>

datatype py_error =
  KeyError | ValueError | OverflowError | TransportError | HTTPStatusError | JSONDecodeError

text \<open>\<open>int(x)\<close> on a float truncates toward zero.\<close>

definition py_int :: "real \<Rightarrow> int" where
  "py_int x = (if 0 \<le> x then \<lfloor>x\<rfloor> else \<lceil>x\<rceil>)"

text \<open>\<open>round(x)\<close> on a float rounds to the nearest integer, a tie to the even one.\<close>

definition py_round :: "real \<Rightarrow> int" where
  "py_round x =
     (let f = \<lfloor>x\<rfloor>; r = x - of_int f
      in if r < 1 / 2 then f
         else if 1 / 2 < r then f + 1
         else if even f then f else f + 1)"

text \<open>
  A Python \<open>float\<close> is an IEEE 754 double, read as the real number it denotes. The
  doubles of magnitude from \<open>2 ^ e\<close> up to \<open>2 ^ (e + 1)\<close> are the multiples of
  \<open>2 ^ (e - 52)\<close>, and those below \<open>2 ^ - 1022\<close> are the multiples of \<open>2 ^ - 1074\<close>.
  \<open>two_to e\<close> is \<open>2 ^ e\<close> for an integer \<open>e\<close>, \<open>binade x\<close> the exponent \<open>e\<close> of \<open>x\<close>, not
  below \<open>- 1022\<close>, and \<open>nearest_double x\<close> the multiple of \<open>2 ^ (e - 52)\<close> nearest to \<open>x\<close>, a
  tie going to the even multiple: the rounding of every float operation and of the
  conversion of an \<open>int\<close>.
\<close>

definition two_to :: "int \<Rightarrow> real" where
  "two_to e = (if 0 \<le> e then 2 ^ nat e else 1 / 2 ^ nat (- e))"

definition binade :: "real \<Rightarrow> int" where
  "binade x = max \<lfloor>log 2 \<bar>x\<bar>\<rfloor> (- 1022)"

definition nearest_double :: "real \<Rightarrow> real" where
  "nearest_double x =
     (if x = 0 then 0
      else let ulp = two_to (binade x - 52)
           in of_int (py_round (x / ulp)) * ulp)"

text \<open>
  The largest double is below \<open>2 ^ 1024\<close>. A result that rounds to \<open>2 ^ 1024\<close> or beyond
  is an infinity when it comes from \<open>*\<close>, \<open>/\<close> or \<open>+\<close>, and \<open>OverflowError\<close> when it comes
  from the conversion of an \<open>int\<close>. The two functions modelled here whose float
  operations can overflow, \<open>safe_sell_volume\<close> and \<open>travel_time\<close>, hand the result to
  \<open>int(...)\<close> and to \<open>round(...)\<close>, which raise \<open>OverflowError\<close> on an infinity, and an
  infinity stays one through the operations in between; so \<open>double_of\<close> gives that error
  in place of the infinity. \<open>float_of_int\<close> is the conversion of an \<open>int\<close>.
  \<open>math.ceil\<close>, \<open>int(...)\<close>, \<open>round(...)\<close> and the comparisons are exact on a double.
\<close>

definition double_of :: "real \<Rightarrow> py_error + real" where
  "double_of x =
     (let y = nearest_double x
      in if 2 ^ 1024 \<le> \<bar>y\<bar> then Inl OverflowError else Inr y)"

definition float_of_int :: "int \<Rightarrow> py_error + real" where
  "float_of_int n = double_of (of_int n)"

section \<open>missions/router.py: distances, fuel and time of one leg\<close>

text \<open>
  \<open>distance\<close>: the squares and their sum are exact, on \<open>int\<close>; \<open>math.sqrt\<close> converts the
  sum to a double and returns the double nearest to the square root of that double.
\<close>

definition distance :: "int \<Rightarrow> int \<Rightarrow> int \<Rightarrow> int \<Rightarrow> py_error + real" where
  "distance x1 y1 x2 y2 =
     (case float_of_int ((x2 - x1) ^ 2 + (y2 - y1) ^ 2) of
        Inl e \<Rightarrow> Inl e
      | Inr square \<Rightarrow> Inr (nearest_double (sqrt square)))"

definition fuel_cost :: "real \<Rightarrow> string \<Rightarrow> int" where
  "fuel_cost dst mode =
     (let d = max 1 \<lceil>dst\<rceil>
      in if mode = ''DRIFT'' then 1
         else if mode = ''BURN'' then d * 2
         else d)"

text \<open>
  \<open>travel_time\<close>: the multipliers are doubles; \<open>dist * multiplier\<close>, the division by
  \<open>max(speed, 1)\<close>, an \<open>int\<close> converted to a double that is at least 1, and the addition
  of 15 each round to a double; \<open>round\<close> is exact.
\<close>

definition travel_time :: "real \<Rightarrow> int \<Rightarrow> string \<Rightarrow> py_error + int" where
  "travel_time dst speed mode =
     (let multiplier = (if mode = ''DRIFT'' then 250
                        else if mode = ''BURN'' then 25 / 2
                        else 25)
      in case double_of (dst * multiplier) of
           Inl e \<Rightarrow> Inl e
         | Inr product \<Rightarrow>
             (case float_of_int (max speed 1) of
                Inl e \<Rightarrow> Inl e
              | Inr divisor \<Rightarrow>
                  (case double_of (product / divisor) of
                     Inl e \<Rightarrow> Inl e
                   | Inr ratio \<Rightarrow>
                       (case double_of (15 + ratio) of
                          Inl e \<Rightarrow> Inl e
                        | Inr seconds \<Rightarrow> Inr (py_round seconds)))))"

section \<open>missions/trader.py: the market-overflow guard\<close>

definition SUPPLY_MULTIPLIER :: "string \<rightharpoonup> real" where
  "SUPPLY_MULTIPLIER =
     [''SCARCE'' \<mapsto> 2, ''LIMITED'' \<mapsto> 3, ''MODERATE'' \<mapsto> 4, ''HIGH'' \<mapsto> 5,
      ''ABUNDANT'' \<mapsto> 6]"

text \<open>
  \<open>dest_activity\<close> is \<open>str | None\<close>; \<open>cargo_capacity\<close> defaults to 40, which
  \<open>safe_sell_volume_default\<close> supplies. \<open>multiplier += 1.0\<close> and
  \<open>trade_volume * multiplier\<close> are operations on doubles, the second after the conversion
  of \<open>trade_volume\<close> to a double.
\<close>

definition safe_sell_volume :: "string \<Rightarrow> string option \<Rightarrow> int \<Rightarrow> int \<Rightarrow> py_error + int" where
  "safe_sell_volume dest_supply dest_activity trade_volume cargo_capacity =
     (let multiplier = (case SUPPLY_MULTIPLIER dest_supply of None \<Rightarrow> 3 | Some m \<Rightarrow> m)
      in case (if dest_activity = Some ''STRONG'' then double_of (multiplier + 1)
               else Inr multiplier) of
           Inl e \<Rightarrow> Inl e
         | Inr multiplier \<Rightarrow>
             (case float_of_int trade_volume of
                Inl e \<Rightarrow> Inl e
              | Inr volume \<Rightarrow>
                  (case double_of (volume * multiplier) of
                     Inl e \<Rightarrow> Inl e
                   | Inr units \<Rightarrow> Inr (min (py_int units) cargo_capacity))))"

definition safe_sell_volume_default :: "string \<Rightarrow> string option \<Rightarrow> int \<Rightarrow> py_error + int" where
  "safe_sell_volume_default dest_supply dest_activity trade_volume =
     safe_sell_volume dest_supply dest_activity trade_volume 40"

section \<open>missions/router.py: the multi-hop refuelling planner\<close>

text \<open>
  The fields of \<open>RouteSegment\<close> carry the prefix \<open>seg_\<close> where the source's field name
  is also the name of a function of the module.
\<close>

record RouteSegment =
  seg_origin :: string
  seg_destination :: string
  seg_distance :: real
  seg_flight_mode :: string
  seg_fuel_cost :: int
  seg_travel_seconds :: int

record RoutePlan =
  segments :: "RouteSegment list"
  total_fuel :: int
  total_seconds :: int
  feasible :: bool
  reason :: string

definition plan_segment ::
  "int \<Rightarrow> int \<Rightarrow> int \<Rightarrow> int \<Rightarrow> string \<Rightarrow> string \<Rightarrow> int \<Rightarrow> string \<Rightarrow> py_error + RouteSegment" where
  "plan_segment origin_x origin_y dest_x dest_y origin_symbol dest_symbol speed mode =
     (case distance origin_x origin_y dest_x dest_y of
        Inl e \<Rightarrow> Inl e
      | Inr dst \<Rightarrow>
          (case travel_time dst speed mode of
             Inl e \<Rightarrow> Inl e
           | Inr seconds \<Rightarrow>
               Inr \<lparr>seg_origin = origin_symbol, seg_destination = dest_symbol,
                    seg_distance = dst, seg_flight_mode = mode,
                    seg_fuel_cost = fuel_cost dst mode, seg_travel_seconds = seconds\<rparr>))"

definition REFUEL_STOP_OVERHEAD :: int where
  "REFUEL_STOP_OVERHEAD = 30"

text \<open>Decimal text of a natural number, as an f-string prints an \<open>int\<close>.\<close>

fun py_str_nat :: "nat \<Rightarrow> string" where
  "py_str_nat n =
     (if n < 10 then [''0123456789'' ! n]
      else py_str_nat (n div 10) @ [''0123456789'' ! (n mod 10)])"

declare py_str_nat.simps [simp del]

definition infeasible :: "string \<Rightarrow> RoutePlan" where
  "infeasible why =
     \<lparr>segments = [], total_fuel = 0, total_seconds = 0, feasible = False, reason = why\<rparr>"

text \<open>
  The body of the inner loop \<open>for wp_sym in fuel_waypoints\<close>, on the pair
  \<open>(best_wp, best_remaining_dist)\<close>, and the loop itself, which ends at the first
  exception.
\<close>

definition consider_wp ::
  "(string \<rightharpoonup> int \<times> int) \<Rightarrow> string set \<Rightarrow> int \<Rightarrow> int \<Rightarrow> int \<Rightarrow> int \<Rightarrow> string \<Rightarrow> int
   \<Rightarrow> string option \<times> real \<Rightarrow> string \<Rightarrow> py_error + string option \<times> real" where
  "consider_wp coords visited cx cy dest_x dest_y mode fuel_capacity best wp_sym =
     (if wp_sym \<in> visited then Inr best
      else case coords wp_sym of
        None \<Rightarrow> Inr best
      | Some (wx, wy) \<Rightarrow>
          (case distance cx cy wx wy of
             Inl e \<Rightarrow> Inl e
           | Inr dist_to_wp \<Rightarrow>
               if fuel_capacity < fuel_cost dist_to_wp mode then Inr best
               else (case distance wx wy dest_x dest_y of
                       Inl e \<Rightarrow> Inl e
                     | Inr remaining \<Rightarrow>
                         if remaining < snd best then Inr (Some wp_sym, remaining)
                         else Inr best)))"

fun scan_fuel_waypoints ::
  "(string \<rightharpoonup> int \<times> int) \<Rightarrow> string set \<Rightarrow> int \<Rightarrow> int \<Rightarrow> int \<Rightarrow> int \<Rightarrow> string \<Rightarrow> int
   \<Rightarrow> string option \<times> real \<Rightarrow> string list \<Rightarrow> py_error + string option \<times> real" where
  "scan_fuel_waypoints coords visited cx cy dest_x dest_y mode fuel_capacity best [] = Inr best"
| "scan_fuel_waypoints coords visited cx cy dest_x dest_y mode fuel_capacity best
      (wp_sym # rest) =
     (case consider_wp coords visited cx cy dest_x dest_y mode fuel_capacity best wp_sym of
        Inl e \<Rightarrow> Inl e
      | Inr best \<Rightarrow>
          scan_fuel_waypoints coords visited cx cy dest_x dest_y mode fuel_capacity best rest)"

text \<open>
  The outer loop \<open>for _ in range(max_hops)\<close>, by recursion on the iterations left.
  \<open>fuel_waypoints\<close> is the set in the order its iteration yields it. A lookup
  \<open>coords[k]\<close> of a missing key is \<open>KeyError\<close>. The dash of the last message is
  written as its three UTF-8 bytes.
\<close>

fun hop_loop ::
  "nat \<Rightarrow> (string \<rightharpoonup> int \<times> int) \<Rightarrow> string list \<Rightarrow> string \<Rightarrow> int \<Rightarrow> int \<Rightarrow> int \<Rightarrow> int
   \<Rightarrow> string \<Rightarrow> nat \<Rightarrow> string \<Rightarrow> RouteSegment list \<Rightarrow> string set \<Rightarrow> py_error + RoutePlan" where
  "hop_loop 0 coords fuel_waypoints destination dest_x dest_y fuel_capacity speed mode
      max_hops current segs visited =
     Inr (infeasible (''Exceeded max hops ('' @ py_str_nat max_hops @ '') ''
            @ [CHR 0xE2, CHR 0x80, CHR 0x94] @ '' route infeasible''))"
| "hop_loop (Suc n) coords fuel_waypoints destination dest_x dest_y fuel_capacity speed mode
      max_hops current segs visited =
     (case coords current of
        None \<Rightarrow> Inl KeyError
      | Some (cx, cy) \<Rightarrow>
          (case distance cx cy dest_x dest_y of
             Inl e \<Rightarrow> Inl e
           | Inr dist_to_dest \<Rightarrow>
               if fuel_cost dist_to_dest mode \<le> fuel_capacity then
                 (case plan_segment cx cy dest_x dest_y current destination speed mode of
                    Inl e \<Rightarrow> Inl e
                  | Inr seg \<Rightarrow>
                      let segs = segs @ [seg];
                          total_fuel = sum_list (map seg_fuel_cost segs);
                          total_secs = sum_list (map seg_travel_seconds segs);
                          total_secs = total_secs
                            + (int (length segs) - 1) * REFUEL_STOP_OVERHEAD
                      in Inr \<lparr>segments = segs, total_fuel = total_fuel,
                               total_seconds = total_secs, feasible = True, reason = []\<rparr>)
               else
                 (case scan_fuel_waypoints coords visited cx cy dest_x dest_y mode fuel_capacity
                         (None, dist_to_dest) fuel_waypoints of
                    Inl e \<Rightarrow> Inl e
                  | Inr best \<Rightarrow>
                      (case fst best of
                         None \<Rightarrow>
                           Inr (infeasible (''No reachable fuel waypoint makes progress from ''
                                  @ current @ '' toward '' @ destination))
                       | Some best_wp \<Rightarrow>
                           (case coords best_wp of
                              None \<Rightarrow> Inl KeyError
                            | Some (wx, wy) \<Rightarrow>
                                (case plan_segment cx cy wx wy current best_wp speed mode of
                                   Inl e \<Rightarrow> Inl e
                                 | Inr seg \<Rightarrow>
                                     hop_loop n coords fuel_waypoints destination dest_x dest_y
                                       fuel_capacity speed mode max_hops best_wp (segs @ [seg])
                                       (insert best_wp visited)))))))"

definition plan_multihop ::
  "(string \<rightharpoonup> int \<times> int) \<Rightarrow> string list \<Rightarrow> string \<Rightarrow> string \<Rightarrow> int \<Rightarrow> int \<Rightarrow> string
   \<Rightarrow> py_error + RoutePlan" where
  "plan_multihop coords fuel_waypoints origin destination fuel_capacity speed mode =
     (if origin = destination then
        Inr \<lparr>segments = [], total_fuel = 0, total_seconds = 0, feasible = True, reason = []\<rparr>
      else if coords origin = None \<or> coords destination = None then
        Inr (infeasible (''Unknown coordinates for '' @ origin @ '' or '' @ destination))
      else case coords destination of
        None \<Rightarrow> Inl KeyError
      | Some (dest_x, dest_y) \<Rightarrow>
          let max_hops = length fuel_waypoints + 1
          in hop_loop max_hops coords fuel_waypoints destination dest_x dest_y fuel_capacity
               speed mode max_hops origin [] {origin})"

text \<open>\<open>RoutePlan.num_stops\<close>: the intermediate refuelling stops of a plan.\<close>

definition num_stops :: "RoutePlan \<Rightarrow> int" where
  "num_stops p = (if \<not> feasible p \<or> segments p = [] then 0 else int (length (segments p)) - 1)"

section \<open>fleet/missions.py and fleet/strategy.py: the decision engine\<close>

datatype MissionType = TRADE | SCAN | CONTRACT | GATE_BUILD | IDLE

text \<open>\<open>MissionType(value)\<close>: the member with that value, or \<open>ValueError\<close>.\<close>

definition MissionType_of :: "string \<Rightarrow> py_error + MissionType" where
  "MissionType_of v =
     (if v = ''trade'' then Inr TRADE
      else if v = ''scan'' then Inr SCAN
      else if v = ''contract'' then Inr CONTRACT
      else if v = ''gate_build'' then Inr GATE_BUILD
      else if v = ''idle'' then Inr IDLE
      else Inl ValueError)"

record CapitalPolicy =
  gate_floor :: int
  trade_min :: int
  idle_threshold :: int

definition default_CapitalPolicy :: CapitalPolicy where
  "default_CapitalPolicy = \<lparr>gate_floor = 300000, trade_min = 50000, idle_threshold = 30000\<rparr>"

text \<open>
  \<open>kwargs\<close> is a dictionary literal with at most the one key \<open>capital_floor\<close>, kept as
  the list of its items.
\<close>

record ShipAssignment =
  mission :: MissionType
  kwargs :: "(string \<times> int) list"

definition assign :: "MissionType \<Rightarrow> ShipAssignment" where
  "assign m = \<lparr>mission = m, kwargs = []\<rparr>"

record ShipCapability =
  symbol :: string
  cargo :: int
  fuel :: int
  category :: string
  current_mission :: MissionType

text \<open>\<open>FleetPlan.assignments\<close>, the only field of a plan.\<close>

type_synonym FleetPlan = "string \<rightharpoonup> ShipAssignment"

text \<open>
  \<open>changes_from\<close> builds a dictionary from the items of \<open>assignments\<close>: a key of the
  plan is a key of the result when its new mission differs from the old one.
\<close>

definition changes_from ::
  "FleetPlan \<Rightarrow> (string \<rightharpoonup> MissionType) \<Rightarrow> (string \<rightharpoonup> MissionType \<times> ShipAssignment)" where
  "changes_from assignments current =
     (\<lambda>sym. case assignments sym of
        None \<Rightarrow> None
      | Some new \<Rightarrow>
          let old = (case current sym of None \<Rightarrow> IDLE | Some m \<Rightarrow> m)
          in if mission new \<noteq> old then Some (old, new) else None)"

text \<open>
  The body of the partition loop of \<open>evaluate\<close>, on the triple
  \<open>(plan, probes, cargo_ships)\<close>.
\<close>

definition partition_ship ::
  "string set \<Rightarrow> (string \<rightharpoonup> string)
   \<Rightarrow> FleetPlan \<times> ShipCapability list \<times> ShipCapability list \<Rightarrow> ShipCapability
   \<Rightarrow> FleetPlan \<times> ShipCapability list \<times> ShipCapability list" where
  "partition_ship skip_ships overrides st ship =
     (case st of (plan, probes, cargo_ships) \<Rightarrow>
        if symbol ship \<in> skip_ships then (plan(symbol ship \<mapsto> assign IDLE), probes, cargo_ships)
        else case overrides (symbol ship) of
          Some v \<Rightarrow>
            let m = (case MissionType_of v of Inr m \<Rightarrow> m | Inl _ \<Rightarrow> IDLE)
            in (plan(symbol ship \<mapsto> assign m), probes, cargo_ships)
        | None \<Rightarrow>
            if category ship = ''disabled'' then
              (plan(symbol ship \<mapsto> assign IDLE), probes, cargo_ships)
            else if category ship = ''sentinel'' then
              (plan(symbol ship \<mapsto> assign IDLE), probes, cargo_ships)
            else if category ship = ''probe'' then (plan, probes @ [ship], cargo_ships)
            else if category ship = ''ship'' then (plan, probes, cargo_ships @ [ship])
            else (plan(symbol ship \<mapsto> assign IDLE), probes, cargo_ships))"

text \<open>\<open>for ship in ships: plan.assignments[ship.symbol] = a\<close>.\<close>

definition assign_each :: "ShipAssignment \<Rightarrow> ShipCapability list \<Rightarrow> FleetPlan \<Rightarrow> FleetPlan" where
  "assign_each a ships plan = foldl (\<lambda>p ship. p(symbol ship \<mapsto> a)) plan ships"

text \<open>
  \<open>FleetStrategy.evaluate\<close>, with the strategy's \<open>capital\<close> as first argument.
  \<open>overrides\<close> is \<open>dict | None\<close>, and \<open>overrides or {}\<close> reads \<open>None\<close> as the empty
  dictionary. \<open>list.sort(key=..., reverse=True)\<close> is stable, as \<open>sort_key\<close> on the
  negated key is. The contract loop pops \<open>min(2, len(unassigned))\<close> ships off the front,
  so its \<open>pop(0)\<close> never meets an empty list.
\<close>

definition evaluate ::
  "CapitalPolicy \<Rightarrow> int \<Rightarrow> ShipCapability list \<Rightarrow> (string \<rightharpoonup> MissionType) \<Rightarrow> bool \<Rightarrow> bool \<Rightarrow> bool
   \<Rightarrow> bool \<Rightarrow> string set \<Rightarrow> (string \<rightharpoonup> string) option \<Rightarrow> FleetPlan" where
  "evaluate capital credits ships current_assignments has_active_contract contract_profitable
      gate_needs_supplies market_routes_available skip_ships overrides =
     (let overrides = (case overrides of None \<Rightarrow> Map.empty | Some ov \<Rightarrow> ov)
      in case foldl (partition_ship skip_ships overrides) (Map.empty, [], []) ships of
        (plan, probes, cargo_ships) \<Rightarrow>
          let plan = assign_each (assign SCAN) probes plan
          in if credits < idle_threshold capital then assign_each (assign IDLE) cargo_ships plan
             else
               let cargo_ships = sort_key (\<lambda>s. - cargo s) cargo_ships;
                   unassigned = cargo_ships;
                   (plan, unassigned) =
                     (case unassigned of
                        gate_ship # rest \<Rightarrow>
                          if gate_needs_supplies \<and> gate_floor capital \<le> credits then
                            (plan(symbol gate_ship \<mapsto>
                               \<lparr>mission = GATE_BUILD,
                                kwargs = [(''capital_floor'', gate_floor capital)]\<rparr>), rest)
                          else (plan, unassigned)
                      | [] \<Rightarrow> (plan, unassigned));
                   (plan, unassigned) =
                     (if has_active_contract \<and> contract_profitable then
                        let k = min 2 (length unassigned)
                        in (assign_each (assign CONTRACT) (take k unassigned) plan,
                            drop k unassigned)
                      else (plan, unassigned));
                   (plan, unassigned) =
                     (if market_routes_available \<and> trade_min capital \<le> credits then
                        (assign_each (assign TRADE) unassigned plan, [])
                      else (plan, unassigned))
               in assign_each (assign IDLE) unassigned plan)"

section \<open>fleet/ship_agent.py and fleet/commander.py: crash recovery\<close>

text \<open>
  A task handle is a number. \<open>restart_count\<close> starts at 0 and is only incremented or reset
  to 0, so it is a natural number. \<open>launch\<close> returns the new task, or \<open>None\<close> without
  touching the agent when the mission is \<open>IDLE\<close> or has no registered coroutine;
  \<open>registered\<close> is the registry \<open>get_mission_coroutine\<close> reads and \<open>new_task\<close> the handle
  \<open>asyncio.create_task\<close> returns.
\<close>

record ShipAgent =
  agent_symbol :: string
  agent_mission :: MissionType
  agent_system :: string
  task :: "nat option"
  restart_count :: nat
  mission_kwargs :: "(string \<times> int) list"

definition launch :: "(MissionType \<Rightarrow> bool) \<Rightarrow> nat \<Rightarrow> ShipAgent \<Rightarrow> ShipAgent \<times> nat option" where
  "launch registered new_task agent =
     (if agent_mission agent = IDLE then (agent, None)
      else if \<not> registered (agent_mission agent) then (agent, None)
      else (agent\<lparr>task := Some new_task\<rparr>, Some new_task))"

definition relaunch :: "(MissionType \<Rightarrow> bool) \<Rightarrow> nat \<Rightarrow> ShipAgent \<Rightarrow> ShipAgent \<times> nat option" where
  "relaunch registered new_task agent =
     launch registered new_task (agent\<lparr>restart_count := restart_count agent + 1\<rparr>)"

definition MAX_RESTARTS :: nat where
  "MAX_RESTARTS = 5"

definition RESTART_BACKOFF :: "int list" where
  "RESTART_BACKOFF = [10, 30, 60, 120, 300]"

text \<open>
  What \<open>_handle_crash\<close> reads and writes: \<open>state.agents\<close>, the commander's
  \<open>active_tasks\<close>, and the durations handed to \<open>asyncio.sleep\<close>, in order.
\<close>

record fleet =
  agents :: "string \<rightharpoonup> ShipAgent"
  active_tasks :: "string \<rightharpoonup> nat"
  sleeps :: "int list"

text \<open>
  \<open>FleetCommander._handle_crash\<close>. \<open>shutdown_is_set\<close> is what
  \<open>state.shutdown.is_set()\<close> answers after the sleep. The index
  \<open>min(restart_count, len(RESTART_BACKOFF) - 1)\<close> is within the tuple.
\<close>

definition handle_crash ::
  "(MissionType \<Rightarrow> bool) \<Rightarrow> nat \<Rightarrow> bool \<Rightarrow> fleet \<Rightarrow> string \<Rightarrow> fleet" where
  "handle_crash registered new_task shutdown_is_set st ship_symbol =
     (case agents st ship_symbol of
        None \<Rightarrow> st\<lparr>active_tasks := (active_tasks st)(ship_symbol := None)\<rparr>
      | Some agent \<Rightarrow>
          if MAX_RESTARTS \<le> restart_count agent then
            st\<lparr>agents := (agents st)(ship_symbol \<mapsto> agent\<lparr>agent_mission := IDLE\<rparr>),
               active_tasks := (active_tasks st)(ship_symbol := None)\<rparr>
          else
            let backoff = RESTART_BACKOFF ! min (restart_count agent) (length RESTART_BACKOFF - 1);
                st = st\<lparr>sleeps := sleeps st @ [backoff]\<rparr>
            in if shutdown_is_set then st\<lparr>active_tasks := (active_tasks st)(ship_symbol := None)\<rparr>
               else case relaunch registered new_task agent of
                 (agent, Some t) \<Rightarrow>
                   st\<lparr>agents := (agents st)(ship_symbol \<mapsto> agent),
                      active_tasks := (active_tasks st)(ship_symbol \<mapsto> t)\<rparr>
               | (agent, None) \<Rightarrow>
                   st\<lparr>agents := (agents st)(ship_symbol \<mapsto> agent),
                      active_tasks := (active_tasks st)(ship_symbol := None)\<rparr>)"

section \<open>client.py: the retrying request primitive\<close>















section \<open>missions/contractor.py: contract profitability\<close>

record ContractDelivery =
  trade_symbol :: string
  destination_symbol :: string
  units_required :: int
  units_fulfilled :: int

record ContractPayment =
  on_accepted :: int
  on_fulfilled :: int

record ContractTerms =
  payment :: ContractPayment
  deliver :: "ContractDelivery list"

record Contract =
  contract_id :: string
  terms :: ContractTerms
  accepted :: bool
  fulfilled :: bool

text \<open>
  The market store is not part of the sources at hand; of a price record the contractor
  reads \<open>purchase_price\<close> and \<open>waypoint_symbol\<close>. \<open>find_best_buy good system\<close> is the
  store's query, a parameter of the model: the cheapest cached seller, or \<open>None\<close>.
\<close>

record MarketPriceRecord =
  purchase_price :: int
  waypoint_symbol :: string

text \<open>
  The explanation is one of two f-strings, kept as the template and its arguments:
  \<open>No market sells {good}\<close>, and the breakdown of payment, cost, profit and the detail
  lines \<open>(remaining, good, price, waypoint)\<close>.
\<close>

datatype explanation =
  NoMarketSells string
  | Breakdown int int int "(int \<times> string \<times> int \<times> string) list"

text \<open>
  The loop of \<open>_evaluate_profitability\<close> over the delivery lines, on \<open>total_cost\<close> and
  \<open>details\<close>; \<open>Inl\<close> is the early return from inside the loop.
\<close>

fun cost_lines ::
  "(string \<Rightarrow> string \<Rightarrow> MarketPriceRecord option) \<Rightarrow> string \<Rightarrow> ContractDelivery list
   \<Rightarrow> int \<Rightarrow> (int \<times> string \<times> int \<times> string) list
   \<Rightarrow> (bool \<times> int \<times> explanation) + (int \<times> (int \<times> string \<times> int \<times> string) list)" where
  "cost_lines find_best_buy system [] total_cost details = Inr (total_cost, details)"
| "cost_lines find_best_buy system (d # ds) total_cost details =
     (let remaining = units_required d - units_fulfilled d
      in if remaining \<le> 0 then cost_lines find_best_buy system ds total_cost details
         else case find_best_buy (trade_symbol d) system of
           None \<Rightarrow> Inl (False, 0, NoMarketSells (trade_symbol d))
         | Some best \<Rightarrow>
             let cost = purchase_price best * remaining
             in cost_lines find_best_buy system ds (total_cost + cost)
                  (details @ [(remaining, trade_symbol d, purchase_price best,
                               waypoint_symbol best)]))"

definition evaluate_profitability ::
  "(string \<Rightarrow> string \<Rightarrow> MarketPriceRecord option) \<Rightarrow> Contract \<Rightarrow> string
   \<Rightarrow> bool \<times> int \<times> explanation" where
  "evaluate_profitability find_best_buy contract system =
     (case cost_lines find_best_buy system (deliver (terms contract)) 0 [] of
        Inl early \<Rightarrow> early
      | Inr (total_cost, details) \<Rightarrow>
          let total_payment = on_accepted (payment (terms contract))
                              + on_fulfilled (payment (terms contract));
              profit = total_payment - total_cost
          in (0 < profit, profit, Breakdown total_payment total_cost profit details))"

section \<open>The specification's own formulas\<close>

text \<open>
  The multiplier as the specification words it: the table value of the supply level,
  3 for a level outside the table, and one more when the activity is \<open>STRONG\<close>.
\<close>

definition spec_multiplier :: "string \<Rightarrow> string option \<Rightarrow> real" where
  "spec_multiplier supply activity =
     (if supply = ''SCARCE'' then 2 else if supply = ''LIMITED'' then 3
      else if supply = ''MODERATE'' then 4 else if supply = ''HIGH'' then 5
      else if supply = ''ABUNDANT'' then 6 else 3)
     + (if activity = Some ''STRONG'' then 1 else 0)"

section \<open>Notions and sample data used to state the properties\<close>

text \<open>
  The ships the partition loop of \<open>evaluate\<close> appends to \<open>probes\<close> and to
  \<open>cargo_ships\<close>: those neither skipped nor overridden, of category \<open>probe\<close> and
  \<open>ship\<close>.
\<close>

definition is_probe :: "string set \<Rightarrow> (string \<rightharpoonup> string) \<Rightarrow> ShipCapability \<Rightarrow> bool" where
  "is_probe skip_ships ov s \<longleftrightarrow> symbol s \<notin> skip_ships \<and> ov (symbol s) = None \<and> category s = ''probe''"

definition is_cargo :: "string set \<Rightarrow> (string \<rightharpoonup> string) \<Rightarrow> ShipCapability \<Rightarrow> bool" where
  "is_cargo skip_ships ov s \<longleftrightarrow> symbol s \<notin> skip_ships \<and> ov (symbol s) = None \<and> category s = ''ship''"

text \<open>\<open>overrides or {}\<close>.\<close>

definition the_overrides :: "(string \<rightharpoonup> string) option \<Rightarrow> (string \<rightharpoonup> string)" where
  "the_overrides overrides = (case overrides of None \<Rightarrow> Map.empty | Some ov \<Rightarrow> ov)"

text \<open>The plan as the partition loop leaves it.\<close>

definition direct_plan :: "string set \<Rightarrow> (string \<rightharpoonup> string) \<Rightarrow> ShipCapability list \<Rightarrow> FleetPlan" where
  "direct_plan skip_ships ov ships = fst (foldl (partition_ship skip_ships ov) (Map.empty, [], []) ships)"

text \<open>
  The decision order in the specification's words, for \<open>n\<close> cargo ships sorted by
  capacity: the number of ships that get \<open>GATE_BUILD\<close> (the first, when the gate needs
  supplies, the credits reach the gate floor and a cargo ship remains), the number that
  get \<open>CONTRACT\<close> (up to two of the remaining ones, under an active profitable contract),
  and the assignment of the ship at position \<open>i\<close> of the sorted list.
\<close>

definition gate_count :: "CapitalPolicy \<Rightarrow> int \<Rightarrow> bool \<Rightarrow> nat \<Rightarrow> nat" where
  "gate_count capital credits gate_needs_supplies n =
     (if gate_needs_supplies \<and> gate_floor capital \<le> credits \<and> 0 < n then 1 else 0)"

definition contract_count :: "bool \<Rightarrow> bool \<Rightarrow> nat \<Rightarrow> nat" where
  "contract_count has_active_contract contract_profitable n =
     (if has_active_contract \<and> contract_profitable then min 2 n else 0)"

definition cargo_assignment ::
  "CapitalPolicy \<Rightarrow> int \<Rightarrow> bool \<Rightarrow> bool \<Rightarrow> bool \<Rightarrow> bool \<Rightarrow> nat \<Rightarrow> nat \<Rightarrow> ShipAssignment" where
  "cargo_assignment capital credits has_active_contract contract_profitable gate_needs_supplies
      market_routes_available n i =
     (let g = gate_count capital credits gate_needs_supplies n;
          k = contract_count has_active_contract contract_profitable (n - g)
      in if i < g then \<lparr>mission = GATE_BUILD, kwargs = [(''capital_floor'', gate_floor capital)]\<rparr>
         else if i < g + k then assign CONTRACT
         else if market_routes_available \<and> trade_min capital \<le> credits then assign TRADE
         else assign IDLE)"

text \<open>A fleet of four haulers and a probe, for concrete runs of the engine.\<close>

definition fleet5 :: "ShipCapability list" where
  "fleet5 =
     [\<lparr>symbol = ''S-1'', cargo = 40, fuel = 400, category = ''ship'', current_mission = IDLE\<rparr>,
      \<lparr>symbol = ''S-2'', cargo = 80, fuel = 400, category = ''ship'', current_mission = IDLE\<rparr>,
      \<lparr>symbol = ''S-3'', cargo = 80, fuel = 400, category = ''ship'', current_mission = IDLE\<rparr>,
      \<lparr>symbol = ''S-4'', cargo = 10, fuel = 400, category = ''ship'', current_mission = IDLE\<rparr>,
      \<lparr>symbol = ''P-1'', cargo = 0, fuel = 0, category = ''probe'', current_mission = IDLE\<rparr>]"

text \<open>A contract of two delivery lines and a market store that only knows iron.\<close>

definition two_line_contract :: Contract where
  "two_line_contract =
     \<lparr>contract_id = ''c1'',
      terms = \<lparr>payment = \<lparr>on_accepted = 1000, on_fulfilled = 9000\<rparr>,
               deliver = [\<lparr>trade_symbol = ''IRON'', destination_symbol = ''X1-A1'',
                            units_required = 10, units_fulfilled = 0\<rparr>,
                          \<lparr>trade_symbol = ''GOLD'', destination_symbol = ''X1-A1'',
                            units_required = 5, units_fulfilled = 2\<rparr>]\<rparr>,
      accepted = False, fulfilled = False\<rparr>"

definition iron_only_market :: "string \<Rightarrow> string \<Rightarrow> MarketPriceRecord option" where
  "iron_only_market good system =
     (if good = ''IRON'' then Some \<lparr>purchase_price = 83, waypoint_symbol = ''X1-H58''\<rparr> else None)"

text \<open>
  Successive calls of \<open>_handle_crash\<close> for one ship, each with the handle its restart
  would get, the shutdown not signalled, and nothing else changing the agent between two
  calls. This is the handler alone, not the event loop: after a batch holding a crash
  event the loop also runs \<open>_maybe_reassign\<close>, which is not modelled and which launches
  anew, with \<open>restart_count\<close> reset to 0, every ship whose planned mission differs from
  its agent's.
\<close>

definition handle_crashes :: "(MissionType \<Rightarrow> bool) \<Rightarrow> string \<Rightarrow> fleet \<Rightarrow> nat list \<Rightarrow> fleet" where
  "handle_crashes registered ship_symbol st new_tasks =
     foldl (\<lambda>s t. handle_crash registered t False s ship_symbol) st new_tasks"

text \<open>
  A commander with one trading agent, fresh and after five restarts.
\<close>

definition trader_agent :: ShipAgent where
  "trader_agent =
     \<lparr>agent_symbol = ''S-1'', agent_mission = TRADE, agent_system = ''X1'', task = Some 0,
      restart_count = 0, mission_kwargs = []\<rparr>"

definition worn_trader :: fleet where
  "worn_trader =
     \<lparr>agents = [''S-1'' \<mapsto> trader_agent\<lparr>restart_count := 5\<rparr>], active_tasks = [''S-1'' \<mapsto> 5],
      sleeps = [10, 30, 60, 120, 300]\<rparr>"

definition one_trader :: fleet where
  "one_trader = \<lparr>agents = [''S-1'' \<mapsto> trader_agent], active_tasks = [''S-1'' \<mapsto> 0], sleeps = []\<rparr>"








text \<open>
  The greedy algorithm in the specification's words. \<open>the_distance\<close> is the distance
  \<open>distance\<close> returns. Seen from a position \<open>(cx, cy)\<close>: the remaining distance of a
  waypoint to the destination; a waypoint with coordinates that one tank reaches; and a
  forward stop, a waypoint not yet visited, within one tank, whose remaining distance is
  strictly smaller than the current one.
\<close>

definition the_distance :: "int \<Rightarrow> int \<Rightarrow> int \<Rightarrow> int \<Rightarrow> real" where
  "the_distance x1 y1 x2 y2 = (case distance x1 y1 x2 y2 of Inl e \<Rightarrow> 0 | Inr d \<Rightarrow> d)"

definition remaining_to :: "(string \<rightharpoonup> int \<times> int) \<Rightarrow> int \<Rightarrow> int \<Rightarrow> string \<Rightarrow> real" where
  "remaining_to coords dest_x dest_y w =
     (case coords w of Some (wx, wy) \<Rightarrow> the_distance wx wy dest_x dest_y | None \<Rightarrow> 0)"

definition within_tank ::
  "(string \<rightharpoonup> int \<times> int) \<Rightarrow> string \<Rightarrow> int \<Rightarrow> int \<Rightarrow> int \<Rightarrow> string \<Rightarrow> bool" where
  "within_tank coords mode fuel_capacity cx cy w =
     (case coords w of
        Some (wx, wy) \<Rightarrow> fuel_cost (the_distance cx cy wx wy) mode \<le> fuel_capacity
      | None \<Rightarrow> False)"

definition forward_stop ::
  "(string \<rightharpoonup> int \<times> int) \<Rightarrow> string set \<Rightarrow> string \<Rightarrow> int \<Rightarrow> int \<Rightarrow> int \<Rightarrow> int \<Rightarrow> int \<Rightarrow> string
   \<Rightarrow> bool" where
  "forward_stop coords visited mode fuel_capacity cx cy dest_x dest_y w \<longleftrightarrow>
     w \<notin> visited \<and> within_tank coords mode fuel_capacity cx cy w
     \<and> remaining_to coords dest_x dest_y w < the_distance cx cy dest_x dest_y"

text \<open>
  How one waypoint changes the pair of the best stop found and its remaining distance:
  it becomes the best stop when it is unvisited, within one tank and nearer to the
  destination than the best so far.
\<close>

definition nearer_stop ::
  "(string \<rightharpoonup> int \<times> int) \<Rightarrow> string set \<Rightarrow> int \<Rightarrow> int \<Rightarrow> int \<Rightarrow> int \<Rightarrow> string \<Rightarrow> int
   \<Rightarrow> string option \<times> real \<Rightarrow> string \<Rightarrow> string option \<times> real" where
  "nearer_stop coords visited cx cy dest_x dest_y mode fuel_capacity best w =
     (if w \<notin> visited \<and> within_tank coords mode fuel_capacity cx cy w
         \<and> remaining_to coords dest_x dest_y w < snd best
      then (Some w, remaining_to coords dest_x dest_y w) else best)"

text \<open>
  The feasible plan over given segments: the fuel is the sum of the segments' fuel, the
  time the sum of their times plus 30 seconds for each intermediate stop.
\<close>

definition arrival :: "RouteSegment list \<Rightarrow> RoutePlan" where
  "arrival segs =
     \<lparr>segments = segs, total_fuel = sum_list (map seg_fuel_cost segs),
      total_seconds = sum_list (map seg_travel_seconds segs) + 30 * (int (length segs) - 1),
      feasible = True, reason = []\<rparr>"

text \<open>An infeasible plan: no segments, no fuel, no time, and a reason.\<close>

definition gives_up :: "RoutePlan \<Rightarrow> bool" where
  "gives_up p \<longleftrightarrow>
     \<not> feasible p \<and> segments p = [] \<and> total_fuel p = 0 \<and> total_seconds p = 0 \<and> reason p \<noteq> []"

text \<open>
  \<open>greedy_run n ... current segs visited p\<close>: the plan \<open>p\<close> is what the greedy
  forward-progress algorithm produces with \<open>n\<close> iterations left, standing at \<open>current\<close>
  with the segments \<open>segs\<close> behind it. With no iteration left it gives up. Otherwise, when
  one tank reaches the destination, the plan is the arrival over the segments so far and
  the segment to the destination. When it does not and the fuel waypoints hold no forward
  stop, it gives up. When they hold one, the run continues from a forward stop among them
  of least remaining distance, with the segment to it appended and the stop visited.
\<close>

fun greedy_run ::
  "nat \<Rightarrow> (string \<rightharpoonup> int \<times> int) \<Rightarrow> string set \<Rightarrow> string \<Rightarrow> int \<Rightarrow> int \<Rightarrow> int \<Rightarrow> int \<Rightarrow> string
   \<Rightarrow> string \<Rightarrow> RouteSegment list \<Rightarrow> string set \<Rightarrow> RoutePlan \<Rightarrow> bool" where
  "greedy_run 0 coords fuel_wps destination dest_x dest_y fuel_capacity speed mode
      current segs visited p = gives_up p"
| "greedy_run (Suc n) coords fuel_wps destination dest_x dest_y fuel_capacity speed mode
      current segs visited p =
     (case coords current of
        None \<Rightarrow> False
      | Some (cx, cy) \<Rightarrow>
          if fuel_cost (the_distance cx cy dest_x dest_y) mode \<le> fuel_capacity then
            (case plan_segment cx cy dest_x dest_y current destination speed mode of
               Inl e \<Rightarrow> False
             | Inr s \<Rightarrow> p = arrival (segs @ [s]))
          else if \<forall>w \<in> fuel_wps.
                    \<not> forward_stop coords visited mode fuel_capacity cx cy dest_x dest_y w then
            gives_up p
          else
            (\<exists>w \<in> fuel_wps.
               forward_stop coords visited mode fuel_capacity cx cy dest_x dest_y w
               \<and> (\<forall>u \<in> fuel_wps.
                     forward_stop coords visited mode fuel_capacity cx cy dest_x dest_y u
                     \<longrightarrow> remaining_to coords dest_x dest_y w \<le> remaining_to coords dest_x dest_y u)
               \<and> (case coords w of
                     None \<Rightarrow> False
                   | Some (wx, wy) \<Rightarrow>
                       (case plan_segment cx cy wx wy current w speed mode of
                          Inl e \<Rightarrow> False
                        | Inr s \<Rightarrow>
                            greedy_run n coords fuel_wps destination dest_x dest_y fuel_capacity
                              speed mode w (segs @ [s]) (insert w visited) p))))"

text \<open>
  The coordinate maps on which no distance leaves the range of the doubles: every
  coordinate is within \<open>2 ^ 500\<close> of zero.
\<close>

definition in_range :: "(string \<rightharpoonup> int \<times> int) \<Rightarrow> bool" where
  "in_range coords \<longleftrightarrow> (\<forall>(x, y) \<in> ran coords. \<bar>x\<bar> \<le> 2 ^ 500 \<and> \<bar>y\<bar> \<le> 2 ^ 500)"

text \<open>
  Three waypoints on a line, and the plan from the first to the last; two waypoints
  \<open>2 ^ 600\<close> apart; and two waypoints five units apart.
\<close>

definition line_coords :: "string \<rightharpoonup> int \<times> int" where
  "line_coords = [''A'' \<mapsto> (0, 0), ''B'' \<mapsto> (40, 0), ''C'' \<mapsto> (80, 0)]"

definition line_plan :: RoutePlan where
  "line_plan =
     \<lparr>segments =
        [\<lparr>seg_origin = ''A'', seg_destination = ''B'', seg_distance = 40,
          seg_flight_mode = ''CRUISE'', seg_fuel_cost = 40, seg_travel_seconds = 48\<rparr>,
         \<lparr>seg_origin = ''B'', seg_destination = ''C'', seg_distance = 40,
          seg_flight_mode = ''CRUISE'', seg_fuel_cost = 40, seg_travel_seconds = 48\<rparr>],
      total_fuel = 80, total_seconds = 48 + 48 + 30, feasible = True, reason = []\<rparr>"

definition far_coords :: "string \<rightharpoonup> int \<times> int" where
  "far_coords = [''A'' \<mapsto> (0, 0), ''C'' \<mapsto> (2 ^ 600, 0)]"

definition near_coords :: "string \<rightharpoonup> int \<times> int" where
  "near_coords = [''A'' \<mapsto> (0, 0), ''C'' \<mapsto> (3, 4)]"

section \<open>Rounding to a double\<close>

lemma two_to_powr: "two_to e = 2 powr (of_int e)"
  by (simp add: two_to_def powr_real_of_int inverse_eq_divide)

lemma two_to_pos: "0 < two_to e"
  by (simp add: two_to_def)

lemma two_to_mono: "a \<le> b \<Longrightarrow> two_to a \<le> two_to b"
  by (simp add: two_to_powr)

lemma two_to_add: "two_to (a + b) = two_to a * two_to b"
  by (simp add: two_to_powr powr_add)

lemma binade_eqI:
  assumes "two_to e \<le> \<bar>x\<bar>" and "\<bar>x\<bar> < two_to (e + 1)" and "- 1022 \<le> e"
  shows "binade x = e"
proof -
  have pos: "0 < \<bar>x\<bar>"
    using assms(1) two_to_pos [of e] by linarith
  have "\<lfloor>log 2 \<bar>x\<bar>\<rfloor> = e"
    using assms(1,2) pos by (simp add: floor_log_eq_powr_iff two_to_powr)
  then show ?thesis
    using assms(3) by (simp add: binade_def)
qed

lemma py_round_of_int: "py_round (of_int n) = n"
  by (simp add: py_round_def)

lemma py_round_error: "\<bar>of_int (py_round y) - y\<bar> \<le> 1 / 2"
proof -
  have "of_int \<lfloor>y\<rfloor> \<le> y" and "y < of_int \<lfloor>y\<rfloor> + 1"
    by linarith+
  then show ?thesis
    by (auto simp: py_round_def Let_def)
qed

lemma py_round_nonneg: "0 \<le> y \<Longrightarrow> 0 \<le> py_round y"
  by (auto simp: py_round_def Let_def)

lemma binade_exists:
  assumes "1 \<le> \<bar>x\<bar>"
  shows "0 \<le> binade x \<and> two_to (binade x) \<le> \<bar>x\<bar> \<and> \<bar>x\<bar> < two_to (binade x + 1)"
proof -
  define e where "e = \<lfloor>log 2 \<bar>x\<bar>\<rfloor>"
  have pos: "0 < \<bar>x\<bar>"
    using assms by linarith
  have "0 \<le> log 2 \<bar>x\<bar>"
    using assms by simp
  then have e0: "0 \<le> e"
    by (simp add: e_def)
  have "2 powr (of_int e) \<le> \<bar>x\<bar> \<and> \<bar>x\<bar> < 2 powr (of_int (e + 1))"
    using floor_log_eq_powr_iff [of "\<bar>x\<bar>" 2 e] pos by (simp add: e_def)
  moreover have "binade x = e"
    using e0 by (simp add: binade_def e_def)
  ultimately show ?thesis
    using e0 by (simp add: two_to_powr)
qed

lemma two_to_binade_le:
  assumes "x \<noteq> 0"
  shows "two_to (binade x) \<le> \<bar>x\<bar> + 1"
proof (cases "1 \<le> \<bar>x\<bar>")
  case True
  then show ?thesis
    using binade_exists [of x] by linarith
next
  case False
  then have "log 2 \<bar>x\<bar> \<le> 0"
    using assms by simp
  then have "\<lfloor>log 2 \<bar>x\<bar>\<rfloor> \<le> 0"
    by (simp add: floor_le_zero)
  then have "binade x \<le> 0"
    by (simp add: binade_def)
  then have "two_to (binade x) \<le> two_to 0"
    by (rule two_to_mono)
  then show ?thesis
    by (simp add: two_to_def)
qed

lemma ulp_le: "two_to (e - 52) \<le> two_to e"
  by (rule two_to_mono) simp

lemma nearest_double_error: "\<bar>nearest_double x - x\<bar> \<le> two_to (binade x - 52) / 2"
proof (cases "x = 0")
  case True
  then show ?thesis
    using two_to_pos [of "binade x - 52"] by (simp add: nearest_double_def)
next
  case False
  define u where "u = two_to (binade x - 52)"
  have u: "0 < u"
    by (simp add: u_def two_to_pos)
  have "nearest_double x - x = (of_int (py_round (x / u)) - x / u) * u"
    using False u by (simp add: nearest_double_def Let_def u_def [symmetric] algebra_simps)
  then have "\<bar>nearest_double x - x\<bar> = \<bar>of_int (py_round (x / u)) - x / u\<bar> * u"
    using u by (simp add: abs_mult)
  also have "\<dots> \<le> 1 / 2 * u"
    using py_round_error [of "x / u"] u by (intro mult_right_mono) simp_all
  finally show ?thesis
    by (simp add: u_def)
qed

lemma nearest_double_abs_le: "\<bar>nearest_double x\<bar> \<le> 2 * \<bar>x\<bar> + 1"
proof (cases "x = 0")
  case True
  then show ?thesis
    by (simp add: nearest_double_def)
next
  case False
  have "two_to (binade x - 52) / 2 \<le> (\<bar>x\<bar> + 1) / 2"
    using ulp_le [of "binade x"] two_to_binade_le [OF False] by simp
  then have "\<bar>nearest_double x - x\<bar> \<le> (\<bar>x\<bar> + 1) / 2"
    using nearest_double_error [of x] by linarith
  moreover have "\<bar>nearest_double x\<bar> \<le> \<bar>nearest_double x - x\<bar> + \<bar>x\<bar>"
    by simp
  ultimately show ?thesis
    using abs_ge_zero [of x] by argo
qed

lemma nearest_double_ge_half:
  assumes "1 \<le> x"
  shows "x / 2 \<le> nearest_double x"
proof -
  have "two_to (binade x) \<le> x"
    using binade_exists [of x] assms by simp
  then have "two_to (binade x - 52) / 2 \<le> x / 2"
    using ulp_le [of "binade x"] by simp
  then show ?thesis
    using nearest_double_error [of x] by linarith
qed

lemma nearest_double_nonneg:
  assumes "0 \<le> x"
  shows "0 \<le> nearest_double x"
proof (cases "x = 0")
  case True
  then show ?thesis
    by (simp add: nearest_double_def)
next
  case False
  have "0 \<le> x / two_to (binade x - 52)"
    using assms two_to_pos [of "binade x - 52"] by simp
  then have "0 \<le> py_round (x / two_to (binade x - 52))"
    by (rule py_round_nonneg)
  then show ?thesis
    using False two_to_pos [of "binade x - 52"] by (simp add: nearest_double_def Let_def)
qed

lemma nearest_double_small_int:
  assumes "\<bar>n\<bar> < 2 ^ 53"
  shows "nearest_double (of_int n) = of_int n"
proof (cases "n = 0")
  case True
  then show ?thesis
    by (simp add: nearest_double_def)
next
  case False
  define e where "e = binade (of_int n)"
  have "1 \<le> \<bar>n\<bar>"
    using False by simp
  then have "real_of_int 1 \<le> real_of_int \<bar>n\<bar>"
    by (simp only: of_int_le_iff)
  then have one: "1 \<le> \<bar>real_of_int n\<bar>"
    by simp
  from binade_exists [OF one] have e0: "0 \<le> e" and lo: "two_to e \<le> \<bar>real_of_int n\<bar>"
    by (simp_all add: e_def)
  have "\<bar>real_of_int n\<bar> < 2 ^ 53"
    using assms by (metis of_int_abs of_int_less_numeral_power_cancel_iff)
  then have "two_to e < 2 ^ 53"
    using lo by linarith
  then have lt: "(2::real) ^ nat e < 2 ^ 53"
    using e0 by (simp add: two_to_def)
  have "nat e < 53"
  proof (rule ccontr)
    assume "\<not> nat e < 53"
    then have "53 \<le> nat e"
      by simp
    then have "(2::real) ^ 53 \<le> 2 ^ nat e"
      by (intro power_increasing) simp_all
    with lt show False
      by linarith
  qed
  then have e52: "e \<le> 52"
    by linarith
  have ulp: "two_to (e - 52) = 1 / 2 ^ nat (52 - e)"
    using e52 by (cases "e = 52") (simp_all add: two_to_def)
  have "real_of_int n / two_to (e - 52) = of_int (n * 2 ^ nat (52 - e))"
    by (simp add: ulp)
  then have "py_round (real_of_int n / two_to (e - 52)) = n * 2 ^ nat (52 - e)"
    by (simp only: py_round_of_int)
  then show ?thesis
    using False by (simp add: nearest_double_def Let_def e_def [symmetric] ulp)
qed

lemma double_of_bounded:
  assumes "2 * \<bar>x\<bar> + 1 < 2 ^ 1024"
  shows "double_of x = Inr (nearest_double x)"
proof -
  have "\<bar>nearest_double x\<bar> < 2 ^ 1024"
    using nearest_double_abs_le [of x] assms by linarith
  then show ?thesis
    by (simp add: double_of_def Let_def)
qed

lemma double_of_small_int:
  assumes "\<bar>n\<bar> < 2 ^ 53"
  shows "double_of (of_int n) = Inr (of_int n)"
proof -
  have "\<bar>real_of_int n\<bar> < 2 ^ 53"
    using assms by (metis of_int_abs of_int_less_numeral_power_cancel_iff)
  moreover have "(2::real) ^ 53 \<le> 2 ^ 1024"
    by (intro power_increasing) simp_all
  ultimately have "\<bar>real_of_int n\<bar> < 2 ^ 1024"
    by linarith
  then show ?thesis
    by (simp add: double_of_def Let_def nearest_double_small_int [OF assms])
qed

lemma nearest_double_evalI:
  assumes "two_to e \<le> \<bar>x\<bar>" and "\<bar>x\<bar> < two_to (e + 1)" and "- 1022 \<le> e"
    and "py_round (x / two_to (e - 52)) = m"
  shows "nearest_double x = of_int m * two_to (e - 52)"
proof -
  have "x \<noteq> 0"
    using assms(1) two_to_pos [of e] by auto
  then show ?thesis
    using binade_eqI [OF assms(1,2,3)] assms(4) by (simp add: nearest_double_def Let_def)
qed

lemma py_round_evalI:
  assumes "\<bar>y - of_int m\<bar> < 1 / 2"
  shows "py_round y = m"
proof -
  have lo: "of_int m - 1 / 2 < y" and hi: "y < of_int m + 1 / 2"
    using assms by linarith+
  then have "\<lfloor>y\<rfloor> = m \<or> \<lfloor>y\<rfloor> = m - 1"
    by (auto simp: floor_eq_iff)
  then show ?thesis
  proof
    assume "\<lfloor>y\<rfloor> = m"
    then show ?thesis
      using hi by (simp add: py_round_def Let_def)
  next
    assume "\<lfloor>y\<rfloor> = m - 1"
    then show ?thesis
      using lo by (simp add: py_round_def Let_def)
  qed
qed

lemma float_of_int_small: "\<bar>n\<bar> < 2 ^ 53 \<Longrightarrow> float_of_int n = Inr (of_int n)"
  by (simp add: float_of_int_def double_of_small_int)

lemma float_of_int_overflow:
  assumes "2 ^ 1025 \<le> n"
  shows "float_of_int n = Inl OverflowError"
proof -
  have "real_of_int (2 ^ 1025) \<le> real_of_int n"
    using assms by (simp only: of_int_le_iff)
  then have big: "2 ^ 1025 \<le> real_of_int n"
    by simp
  then have "1 \<le> real_of_int n"
    by (rule order_trans [rotated]) simp
  then have "real_of_int n / 2 \<le> nearest_double (real_of_int n)"
    by (rule nearest_double_ge_half)
  then have "2 ^ 1024 \<le> \<bar>nearest_double (real_of_int n)\<bar>"
    using big by simp
  then show ?thesis
    by (simp add: float_of_int_def double_of_def Let_def)
qed

section \<open>Safe sell volume\<close>

lemma py_int_of_int: "py_int (of_int n) = n"
  by (simp add: py_int_def)

lemma py_int_product: "py_int (of_int m * of_int n) = m * n"
  using py_int_of_int [of "m * n"] by simp

lemma spec_multiplier_range:
  "\<exists>k::int. spec_multiplier s a = of_int k \<and> 2 \<le> k \<and> k \<le> 7"
proof -
  have "spec_multiplier s a \<in> of_int ` {2..7}"
    by (auto simp: spec_multiplier_def image_iff intro: bexI [of _ 2] bexI [of _ 3] bexI [of _ 4]
        bexI [of _ 5] bexI [of _ 6] bexI [of _ 7])
  then show ?thesis
    by auto
qed

lemma table_multiplier:
  "(case SUPPLY_MULTIPLIER s of None \<Rightarrow> 3 | Some m \<Rightarrow> m) = spec_multiplier s None"
  by (simp add: SUPPLY_MULTIPLIER_def spec_multiplier_def)

lemma strong_multiplier: "double_of (spec_multiplier s None + 1) = Inr (spec_multiplier s (Some ''STRONG''))"
proof -
  obtain k :: int where k: "spec_multiplier s (Some ''STRONG'') = of_int k" and "2 \<le> k" and "k \<le> 7"
    using spec_multiplier_range by blast
  then have "\<bar>k\<bar> < 2 ^ 53"
    by simp
  then have "double_of (of_int k) = Inr (of_int k)"
    by (rule double_of_small_int)
  moreover have "spec_multiplier s None + 1 = spec_multiplier s (Some ''STRONG'')"
    by (simp add: spec_multiplier_def)
  ultimately show ?thesis
    by (simp add: k)
qed

lemma weak_multiplier: "a \<noteq> Some ''STRONG'' \<Longrightarrow> spec_multiplier s None = spec_multiplier s a"
  by (simp add: spec_multiplier_def)

lemma safe_sell_volume_multiplier:
  "safe_sell_volume s a v c =
     (case float_of_int v of
        Inl e \<Rightarrow> Inl e
      | Inr volume \<Rightarrow>
          (case double_of (volume * spec_multiplier s a) of
             Inl e \<Rightarrow> Inl e
           | Inr units \<Rightarrow> Inr (min (py_int units) c)))"
proof (cases "a = Some ''STRONG''")
  case True
  show ?thesis
    unfolding True safe_sell_volume_def table_multiplier Let_def by (simp add: strong_multiplier)
next
  case False
  then show ?thesis
    unfolding safe_sell_volume_def table_multiplier Let_def by (simp add: weak_multiplier)
qed

lemma safe_sell_volume_exact:
  assumes "\<bar>of_int v\<bar> * spec_multiplier s a < 2 ^ 53"
  shows "safe_sell_volume s a v c = Inr (min \<lfloor>of_int v * spec_multiplier s a\<rfloor> c)"
proof -
  obtain k :: int where k: "spec_multiplier s a = of_int k" and lo: "2 \<le> k" and hi: "k \<le> 7"
    using spec_multiplier_range by blast
  have "real_of_int (\<bar>v\<bar> * k) < real_of_int (2 ^ 53)"
    using assms by (simp add: k)
  then have prod: "\<bar>v\<bar> * k < 2 ^ 53"
    by (simp only: of_int_less_iff)
  have "\<bar>v\<bar> * 1 \<le> \<bar>v\<bar> * k"
    using lo by (intro mult_left_mono) simp_all
  then have small: "\<bar>v\<bar> < 2 ^ 53"
    using prod by linarith
  have "\<bar>v * k\<bar> = \<bar>v\<bar> * k"
    using lo by (simp add: abs_mult)
  then have small_prod: "\<bar>v * k\<bar> < 2 ^ 53"
    using prod by simp
  have vol: "float_of_int v = Inr (of_int v)"
    by (simp add: float_of_int_def double_of_small_int [OF small])
  have units: "double_of (of_int v * of_int k) = Inr (of_int (v * k))"
    using double_of_small_int [OF small_prod] by simp
  have "safe_sell_volume s a v c = Inr (min (v * k) c)"
    by (simp add: safe_sell_volume_multiplier vol k units py_int_product)
  moreover have "\<lfloor>real_of_int v * spec_multiplier s a\<rfloor> = v * k"
    unfolding k by (metis floor_of_int of_int_mult)
  ultimately show ?thesis
    by simp
qed

lemma safe_sell_volume_capped: "safe_sell_volume s a v c = Inr r \<Longrightarrow> r \<le> c"
  by (auto simp: safe_sell_volume_multiplier split: sum.splits)

lemma float_of_int_tie: "float_of_int 9007199254740993 = Inr 9007199254740992"
proof -
  have "py_round (9007199254740993 / two_to (53 - 52)) = 4503599627370496"
    by (simp add: two_to_def py_round_def Let_def floor_eq_iff)
  then have "nearest_double 9007199254740993 = of_int 4503599627370496 * two_to (53 - 52)"
    by (intro nearest_double_evalI) (simp_all add: two_to_def)
  then show ?thesis
    by (simp add: float_of_int_def double_of_def two_to_def)
qed

lemma double_of_triple: "double_of (9007199254740992 * 3) = Inr 27021597764222976"
proof -
  have "(27021597764222976::real) / two_to (54 - 52) = of_int 6755399441055744"
    by (simp add: two_to_def)
  then have "py_round (27021597764222976 / two_to (54 - 52)) = 6755399441055744"
    by (simp only: py_round_of_int)
  then have "nearest_double 27021597764222976 = of_int 6755399441055744 * two_to (54 - 52)"
    by (intro nearest_double_evalI) (simp_all add: two_to_def)
  then show ?thesis
    by (simp add: double_of_def two_to_def)
qed

text \<open>
  C2, as amended. For every supply, activity and cargo capacity \<open>c\<close>, and every trade
  volume \<open>v\<close> with \<open>|v| * m < 2 ^ 53\<close>, \<open>safe_sell_volume\<close> returns
  \<open>min(floor(v * m), c)\<close>, with \<open>m\<close> the multiplier of the table (3 outside it), one
  more under \<open>STRONG\<close> activity. For every trade volume, a result it returns does not
  exceed the cargo capacity. And the three quoted calls give 18, 24 (with the default
  capacity) and 25.
\<close>

theorem safe_sell_volume_spec:
  "(\<bar>of_int v\<bar> * spec_multiplier s a < 2 ^ 53 \<longrightarrow>
      safe_sell_volume s a v c = Inr (min \<lfloor>of_int v * spec_multiplier s a\<rfloor> c))
   \<and> (\<forall>r. safe_sell_volume s a v c = Inr r \<longrightarrow> r \<le> c)
   \<and> safe_sell_volume ''LIMITED'' (Some ''WEAK'') 6 40 = Inr 18
   \<and> safe_sell_volume_default ''LIMITED'' (Some ''STRONG'') 6 = Inr 24
   \<and> safe_sell_volume ''ABUNDANT'' (Some ''STRONG'') 100 25 = Inr 25"
proof -
  have e1: "safe_sell_volume ''LIMITED'' (Some ''WEAK'') 6 40 = Inr 18"
    using safe_sell_volume_exact [of 6 "''LIMITED''" "Some ''WEAK''" 40]
    by (simp add: spec_multiplier_def)
  have e2: "safe_sell_volume_default ''LIMITED'' (Some ''STRONG'') 6 = Inr 24"
    using safe_sell_volume_exact [of 6 "''LIMITED''" "Some ''STRONG''" 40]
    by (simp add: spec_multiplier_def safe_sell_volume_default_def)
  have e3: "safe_sell_volume ''ABUNDANT'' (Some ''STRONG'') 100 25 = Inr 25"
    using safe_sell_volume_exact [of 100 "''ABUNDANT''" "Some ''STRONG''" 25]
    by (simp add: spec_multiplier_def)
  show ?thesis
    using safe_sell_volume_exact [of v s a c] safe_sell_volume_capped [of s a v c] e1 e2 e3
    by blast
qed

theorem safe_sell_volume_spec_witness:
  "\<bar>of_int 6\<bar> * spec_multiplier ''HIGH'' (Some ''STRONG'') < 2 ^ 53
   \<and> safe_sell_volume ''HIGH'' (Some ''STRONG'') 6 30 = Inr 30
   \<and> safe_sell_volume ''HIGH'' (Some ''STRONG'') 6 40 = Inr 36"
  using safe_sell_volume_spec [of 6 "''HIGH''" "Some ''STRONG''" 30]
    safe_sell_volume_spec [of 6 "''HIGH''" "Some ''STRONG''" 40]
  by (simp add: spec_multiplier_def)

text \<open>
  With the trade volume \<open>2 ^ 53 + 1\<close>, limited supply and a capacity of \<open>10 ^ 30\<close>, the
  conversion to a double rounds the volume to \<open>2 ^ 53\<close> and the function returns
  \<open>3 * 2 ^ 53\<close>, three less than the floor of the exact product. With the trade volume
  \<open>10 ^ 400\<close> the conversion raises \<open>OverflowError\<close>.
\<close>

theorem safe_sell_volume_rounding_counterexample:
  "safe_sell_volume ''LIMITED'' (Some ''WEAK'') 9007199254740993 (10 ^ 30)
     = Inr 27021597764222976
   \<and> min \<lfloor>of_int 9007199254740993 * spec_multiplier ''LIMITED'' (Some ''WEAK'')\<rfloor> (10 ^ 30)
     = (27021597764222979 :: int)
   \<and> safe_sell_volume ''LIMITED'' (Some ''WEAK'') (10 ^ 400) 40 = Inl OverflowError"
proof -
  have "py_int 27021597764222976 = 27021597764222976"
    using py_int_of_int [of 27021597764222976] by simp
  then have "safe_sell_volume ''LIMITED'' (Some ''WEAK'') 9007199254740993 (10 ^ 30)
      = Inr 27021597764222976"
    using double_of_triple
    by (simp add: safe_sell_volume_multiplier float_of_int_tie spec_multiplier_def)
  moreover have "\<lfloor>real_of_int 9007199254740993 * 3\<rfloor> = 27021597764222979"
    by (simp add: floor_eq_iff)
  moreover have "safe_sell_volume ''LIMITED'' (Some ''WEAK'') (10 ^ 400) 40 = Inl OverflowError"
  proof -
    have "(2::int) ^ 1025 \<le> 10 ^ 400"
      by simp
    then have "float_of_int (10 ^ 400) = Inl OverflowError"
      by (rule float_of_int_overflow)
    then show ?thesis
      unfolding safe_sell_volume_multiplier by (simp only: sum.case)
  qed
  ultimately show ?thesis
    by (simp add: spec_multiplier_def)
qed

section \<open>Fuel cost of one leg\<close>

text \<open>
  C7, as amended. The fuel cost of a leg is \<open>max(1, ceil(d))\<close> in CRUISE mode, 1 in DRIFT
  mode and \<open>2 * max(1, ceil(d))\<close> in BURN mode; for every positive distance that is
  \<open>ceil(d)\<close>, 1 and \<open>2 * ceil(d)\<close>.
\<close>

theorem fuel_cost_by_mode:
  "fuel_cost d ''CRUISE'' = max 1 \<lceil>d\<rceil>
   \<and> fuel_cost d ''DRIFT'' = 1
   \<and> fuel_cost d ''BURN'' = 2 * max 1 \<lceil>d\<rceil>
   \<and> (0 < d \<longrightarrow> fuel_cost d ''CRUISE'' = \<lceil>d\<rceil> \<and> fuel_cost d ''BURN'' = 2 * \<lceil>d\<rceil>)"
  by (auto simp: fuel_cost_def Let_def max_def)

theorem fuel_cost_by_mode_witness:
  "(0::real) < 7 / 2 \<and> fuel_cost (7 / 2) ''CRUISE'' = 4 \<and> fuel_cost (7 / 2) ''DRIFT'' = 1
   \<and> fuel_cost (7 / 2) ''BURN'' = 8"
  using fuel_cost_by_mode [of "7 / 2"] by (simp add: ceiling_eq_iff)

text \<open>
  At distance 0 the claim's \<open>ceil(d)\<close> is 0, and the code charges 1 in CRUISE and 2 in BURN.
\<close>

theorem fuel_cost_zero_distance_counterexample:
  "fuel_cost 0 ''CRUISE'' = 1 \<and> \<lceil>0::real\<rceil> = 0 \<and> fuel_cost 0 ''BURN'' = 2"
  by (simp add: fuel_cost_def)

section \<open>The decision engine\<close>

subsection \<open>The plan in closed form\<close>

lemma assign_each_apply:
  "assign_each a ss plan x = (if x \<in> symbol ` set ss then Some a else plan x)"
  unfolding assign_each_def
  by (induction ss arbitrary: plan) auto

lemma assign_each_Nil: "assign_each a [] plan = plan"
  by (simp add: assign_each_def)

lemma assign_each_Cons: "assign_each a (s # ss) plan = assign_each a ss (plan(symbol s \<mapsto> a))"
  by (simp add: assign_each_def)

lemma partition_ship_lists:
  "partition_ship sk ov (plan, pr, cg) s =
     (fst (partition_ship sk ov (plan, pr, cg) s),
      pr @ filter (is_probe sk ov) [s], cg @ filter (is_cargo sk ov) [s])"
  by (simp add: partition_ship_def is_probe_def is_cargo_def Let_def split: option.splits)

lemma partition_fold:
  "foldl (partition_ship sk ov) (plan, pr, cg) ships =
     (fst (foldl (partition_ship sk ov) (plan, pr, cg) ships),
      pr @ filter (is_probe sk ov) ships, cg @ filter (is_cargo sk ov) ships)"
proof (induction ships arbitrary: plan pr cg)
  case Nil
  show ?case by simp
next
  case (Cons s ships)
  define plan' where "plan' = fst (partition_ship sk ov (plan, pr, cg) s)"
  define pr' where "pr' = pr @ filter (is_probe sk ov) [s]"
  define cg' where "cg' = cg @ filter (is_cargo sk ov) [s]"
  have step: "partition_ship sk ov (plan, pr, cg) s = (plan', pr', cg')"
    unfolding plan'_def pr'_def cg'_def by (rule partition_ship_lists)
  have "foldl (partition_ship sk ov) (plan, pr, cg) (s # ships)
        = foldl (partition_ship sk ov) (plan', pr', cg') ships"
    by (simp only: foldl_Cons step)
  also have "\<dots> = (fst (foldl (partition_ship sk ov) (plan', pr', cg') ships),
      pr' @ filter (is_probe sk ov) ships, cg' @ filter (is_cargo sk ov) ships)"
    by (rule Cons.IH)
  also have "pr' @ filter (is_probe sk ov) ships = pr @ filter (is_probe sk ov) (s # ships)"
    by (simp add: pr'_def)
  also have "cg' @ filter (is_cargo sk ov) ships = cg @ filter (is_cargo sk ov) (s # ships)"
    by (simp add: cg'_def)
  also have "foldl (partition_ship sk ov) (plan', pr', cg') ships
        = foldl (partition_ship sk ov) (plan, pr, cg) (s # ships)"
    by (simp only: foldl_Cons step)
  finally show ?case .
qed

lemma evaluate_partition:
  "foldl (partition_ship sk ov) (Map.empty, [], []) ships =
     (direct_plan sk ov ships, filter (is_probe sk ov) ships, filter (is_cargo sk ov) ships)"
  using partition_fold [of sk ov Map.empty "[]" "[]" ships] by (simp add: direct_plan_def)

lemma evaluate_low_credits:
  assumes "credits < idle_threshold capital"
  shows "evaluate capital credits ships cur hc cp gn mr sk ovo =
     assign_each (assign IDLE) (filter (is_cargo sk (the_overrides ovo)) ships)
       (assign_each (assign SCAN) (filter (is_probe sk (the_overrides ovo)) ships)
          (direct_plan sk (the_overrides ovo) ships))"
  using assms unfolding evaluate_def the_overrides_def [symmetric] Let_def evaluate_partition
  by simp

lemma evaluate_normal_form:
  assumes "idle_threshold capital \<le> credits"
  shows "evaluate capital credits ships cur hc cp gn mr sk ovo =
     (let ov = the_overrides ovo;
          sorted = sort_key (\<lambda>s. - cargo s) (filter (is_cargo sk ov) ships);
          g = gate_count capital credits gn (length sorted);
          k = contract_count hc cp (length sorted - g)
      in assign_each (assign (if mr \<and> trade_min capital \<le> credits then TRADE else IDLE))
           (drop (g + k) sorted)
           (assign_each (assign CONTRACT) (take k (drop g sorted))
              (assign_each \<lparr>mission = GATE_BUILD, kwargs = [(''capital_floor'', gate_floor capital)]\<rparr>
                 (take g sorted)
                 (assign_each (assign SCAN) (filter (is_probe sk ov) ships)
                    (direct_plan sk ov ships)))))"
proof (cases "sort_key (\<lambda>s. - cargo s) (filter (is_cargo sk (the_overrides ovo)) ships)")
  case Nil
  show ?thesis
    using assms
    by (simp add: evaluate_def Let_def the_overrides_def [symmetric] evaluate_partition Nil
        gate_count_def contract_count_def assign_each_Nil)
next
  case (Cons s rest)
  show ?thesis
    using assms
    by (simp add: evaluate_def Let_def the_overrides_def [symmetric] evaluate_partition Cons
        gate_count_def contract_count_def assign_each_Nil assign_each_Cons)
qed

lemma direct_plan_Nil: "direct_plan sk ov [] = Map.empty"
  by (simp add: direct_plan_def)

lemma direct_plan_snoc:
  "direct_plan sk ov (ships @ [s]) =
     (if symbol s \<in> sk then (direct_plan sk ov ships)(symbol s \<mapsto> assign IDLE)
      else case ov (symbol s) of
        Some v \<Rightarrow> (direct_plan sk ov ships)
                    (symbol s \<mapsto> assign (case MissionType_of v of Inr m \<Rightarrow> m | Inl e \<Rightarrow> IDLE))
      | None \<Rightarrow>
          if category s = ''probe'' \<or> category s = ''ship'' then direct_plan sk ov ships
          else (direct_plan sk ov ships)(symbol s \<mapsto> assign IDLE))"
proof -
  have "direct_plan sk ov (ships @ [s])
        = fst (partition_ship sk ov (direct_plan sk ov ships, filter (is_probe sk ov) ships,
                 filter (is_cargo sk ov) ships) s)"
    unfolding direct_plan_def [of sk ov "ships @ [s]"] foldl_append evaluate_partition by simp
  then show ?thesis
    by (simp add: partition_ship_def Let_def split: option.splits)
qed

lemma dom_direct_plan:
  "dom (direct_plan sk ov ships) =
     symbol ` {s \<in> set ships. \<not> is_probe sk ov s \<and> \<not> is_cargo sk ov s}"
proof (induction ships rule: rev_induct)
  case Nil
  show ?case by (simp add: direct_plan_Nil)
next
  case (snoc s ships)
  show ?case
  proof (cases "is_probe sk ov s \<or> is_cargo sk ov s")
    case True
    then have "direct_plan sk ov (ships @ [s]) = direct_plan sk ov ships"
      by (auto simp: direct_plan_snoc is_probe_def is_cargo_def)
    moreover have "{t \<in> set (ships @ [s]). \<not> is_probe sk ov t \<and> \<not> is_cargo sk ov t}
        = {t \<in> set ships. \<not> is_probe sk ov t \<and> \<not> is_cargo sk ov t}"
      using True by auto
    ultimately show ?thesis
      using snoc.IH by simp
  next
    case False
    then have "dom (direct_plan sk ov (ships @ [s])) = insert (symbol s) (dom (direct_plan sk ov ships))"
      by (auto simp: direct_plan_snoc is_probe_def is_cargo_def split: option.splits if_splits)
    moreover have "{t \<in> set (ships @ [s]). \<not> is_probe sk ov t \<and> \<not> is_cargo sk ov t}
        = insert s {t \<in> set ships. \<not> is_probe sk ov t \<and> \<not> is_cargo sk ov t}"
      using False by auto
    ultimately show ?thesis
      using snoc.IH by simp
  qed
qed

lemma direct_plan_invalid_override:
  assumes "s \<in> set ships" and "ov (symbol s) = Some v" and "MissionType_of v = Inl e"
  shows "direct_plan sk ov ships (symbol s) = Some (assign IDLE)"
  using assms(1)
proof (induction ships rule: rev_induct)
  case Nil
  then show ?case by simp
next
  case (snoc t ships)
  show ?case
  proof (cases "symbol t = symbol s")
    case True
    then show ?thesis
      using assms(2,3) by (simp add: direct_plan_snoc)
  next
    case False
    then have "s \<in> set ships"
      using snoc.prems by auto
    then have "direct_plan sk ov ships (symbol s) = Some (assign IDLE)"
      by (rule snoc.IH)
    then show ?thesis
      using False by (simp add: direct_plan_snoc split: option.splits)
  qed
qed

lemma dom_assign_each: "dom (assign_each a ss plan) = dom plan \<union> symbol ` set ss"
  by (auto simp: assign_each_apply dom_def)

lemma take_take_drop: "take g xs @ take k (drop g xs) @ drop (g + k) xs = xs"
  by (metis append.assoc append_take_drop_id take_add)

lemma set_three_parts:
  "set (take g xs) \<union> set (take k (drop g xs)) \<union> set (drop (g + k) xs) = set xs"
proof -
  have "set (take g xs @ take k (drop g xs) @ drop (g + k) xs) = set xs"
    by (simp only: take_take_drop)
  then show ?thesis
    by (simp add: Un_assoc)
qed

lemma ships_three_kinds:
  "symbol ` {s \<in> set ships. \<not> is_probe sk ov s \<and> \<not> is_cargo sk ov s}
     \<union> symbol ` set (filter (is_probe sk ov) ships)
     \<union> symbol ` set (filter (is_cargo sk ov) ships) = symbol ` set ships"
  by auto

lemma dom_evaluate: "dom (evaluate capital credits ships cur hc cp gn mr sk ovo) = symbol ` set ships"
proof (cases "credits < idle_threshold capital")
  case True
  show ?thesis
    unfolding evaluate_low_credits [OF True] dom_assign_each dom_direct_plan
    using ships_three_kinds [of ships sk "the_overrides ovo"] by (simp add: Un_assoc)
next
  case False
  then have le: "idle_threshold capital \<le> credits"
    by simp
  define ov where "ov = the_overrides ovo"
  define sorted where "sorted = sort_key (\<lambda>s. - cargo s) (filter (is_cargo sk ov) ships)"
  define g where "g = gate_count capital credits gn (length sorted)"
  define k where "k = contract_count hc cp (length sorted - g)"
  have sorted_set: "set sorted = set (filter (is_cargo sk ov) ships)"
    by (simp add: sorted_def)
  have "symbol ` set (take g sorted) \<union> symbol ` set (take k (drop g sorted))
       \<union> symbol ` set (drop (g + k) sorted)
       = symbol ` (set (take g sorted) \<union> set (take k (drop g sorted)) \<union> set (drop (g + k) sorted))"
    by (simp only: image_Un)
  then have parts: "symbol ` set (take g sorted) \<union> symbol ` set (take k (drop g sorted))
       \<union> symbol ` set (drop (g + k) sorted) = symbol ` set (filter (is_cargo sk ov) ships)"
    by (simp only: set_three_parts sorted_set)
  have "dom (evaluate capital credits ships cur hc cp gn mr sk ovo)
        = dom (direct_plan sk ov ships) \<union> symbol ` set (filter (is_probe sk ov) ships)
          \<union> symbol ` set (take g sorted) \<union> symbol ` set (take k (drop g sorted))
          \<union> symbol ` set (drop (g + k) sorted)"
    by (simp only: evaluate_normal_form [OF le] Let_def dom_assign_each ov_def [symmetric]
        sorted_def [symmetric] g_def [symmetric] k_def [symmetric])
  also have "\<dots> = dom (direct_plan sk ov ships) \<union> symbol ` set (filter (is_probe sk ov) ships)
          \<union> (symbol ` set (take g sorted) \<union> symbol ` set (take k (drop g sorted))
          \<union> symbol ` set (drop (g + k) sorted))"
    by (simp only: Un_assoc)
  also have "\<dots> = symbol ` set ships"
    unfolding parts dom_direct_plan by (rule ships_three_kinds)
  finally show ?thesis .
qed

subsection \<open>Manual overrides\<close>

lemma the_overrides_Some: "the_overrides (Some ov) = ov"
  by (simp add: the_overrides_def)

lemma not_probe_overridden: "ov (symbol s) = Some v \<Longrightarrow> symbol s \<notin> symbol ` set (filter (is_probe sk ov) ships)"
  by (auto simp: is_probe_def)

lemma not_cargo_overridden: "ov (symbol s) = Some v \<Longrightarrow> symbol s \<notin> symbol ` set (filter (is_cargo sk ov) ships)"
  by (auto simp: is_cargo_def)

lemma MissionType_of_invalid:
  "v \<notin> {''trade'', ''scan'', ''contract'', ''gate_build'', ''idle''} \<Longrightarrow> MissionType_of v = Inl ValueError"
  by (simp add: MissionType_of_def)

text \<open>
  C8. A ship of the list whose \<open>overrides\<close> entry is a string that is not the value of a
  mission kind is assigned \<open>IDLE\<close> by \<open>evaluate\<close>, whatever the credits, the flags, the
  skip set and the ship's category: the override neither raises nor gives way to the
  normal decision order.
\<close>

theorem invalid_override_is_idle:
  assumes "s \<in> set ships" and "ov (symbol s) = Some v"
    and "v \<notin> {''trade'', ''scan'', ''contract'', ''gate_build'', ''idle''}"
  shows "evaluate capital credits ships cur hc cp gn mr sk (Some ov) (symbol s) = Some (assign IDLE)"
proof -
  have direct: "direct_plan sk ov ships (symbol s) = Some (assign IDLE)"
    using assms(1,2) MissionType_of_invalid [OF assms(3)] by (rule direct_plan_invalid_override)
  have np: "symbol s \<notin> symbol ` set (filter (is_probe sk ov) ships)"
    using assms(2) by (rule not_probe_overridden)
  have nc: "symbol s \<notin> symbol ` set (filter (is_cargo sk ov) ships)"
    using assms(2) by (rule not_cargo_overridden)
  show ?thesis
  proof (cases "credits < idle_threshold capital")
    case True
    show ?thesis
      unfolding evaluate_low_credits [OF True] the_overrides_Some
      using direct np nc by (simp add: assign_each_apply)
  next
    case False
    then have le: "idle_threshold capital \<le> credits"
      by simp
    define sorted where "sorted = sort_key (\<lambda>s. - cargo s) (filter (is_cargo sk ov) ships)"
    have "set sorted = set (filter (is_cargo sk ov) ships)"
      by (simp add: sorted_def)
    then have ns: "symbol s \<notin> symbol ` set sorted"
      using nc by simp
    have n1: "symbol s \<notin> symbol ` set (take g sorted)" for g
      using ns by (auto dest: in_set_takeD)
    have n2: "symbol s \<notin> symbol ` set (drop g sorted)" for g
      using ns by (auto dest: in_set_dropD)
    have n3: "symbol s \<notin> symbol ` set (take k (drop g sorted))" for g k
      using n2 [of g] by (auto dest: in_set_takeD)
    show ?thesis
      unfolding evaluate_normal_form [OF le] the_overrides_Some Let_def sorted_def [symmetric]
      using direct np n1 n2 n3 by (simp add: assign_each_apply)
  qed
qed

theorem invalid_override_is_idle_witness:
  "fleet5 ! 2 \<in> set fleet5
   \<and> [''S-3'' \<mapsto> ''bogus''] (symbol (fleet5 ! 2)) = Some ''bogus''
   \<and> ''bogus'' \<notin> {''trade'', ''scan'', ''contract'', ''gate_build'', ''idle''}
   \<and> evaluate default_CapitalPolicy 500000 fleet5 Map.empty True True True True {}
        (Some [''S-3'' \<mapsto> ''bogus'']) ''S-3'' = Some (assign IDLE)"
proof -
  have a: "fleet5 ! 2 \<in> set fleet5"
    by (simp add: fleet5_def)
  have b: "[''S-3'' \<mapsto> ''bogus''] (symbol (fleet5 ! 2)) = Some ''bogus''"
    by (simp add: fleet5_def)
  have c: "''bogus'' \<notin> {''trade'', ''scan'', ''contract'', ''gate_build'', ''idle''}"
    by simp
  have s: "symbol (fleet5 ! 2) = ''S-3''"
    by (simp add: fleet5_def)
  show ?thesis
    using invalid_override_is_idle [where s = "fleet5 ! 2" and ships = fleet5
        and ov = "[''S-3'' \<mapsto> ''bogus'']" and v = "''bogus''", OF a b c,
        of default_CapitalPolicy 500000 Map.empty True True True True "{}"] a b c
    unfolding s by simp
qed

subsection \<open>The decision order\<close>

lemma nth_in_take_iff:
  assumes "distinct ys" and "i < length ys"
  shows "ys ! i \<in> set (take n ys) \<longleftrightarrow> i < n"
proof
  assume "ys ! i \<in> set (take n ys)"
  then obtain j where j: "j < length (take n ys)" "take n ys ! j = ys ! i"
    by (auto simp: in_set_conv_nth)
  then have "j < n" "j < length ys" "ys ! j = ys ! i"
    by auto
  then have "j = i"
    using assms by (simp add: nth_eq_iff_index_eq)
  then show "i < n"
    using \<open>j < n\<close> by simp
next
  assume "i < n"
  then have "i < length (take n ys)" "take n ys ! i = ys ! i"
    using assms(2) by auto
  then show "ys ! i \<in> set (take n ys)"
    by (metis nth_mem)
qed

lemma nth_in_drop_iff:
  assumes "distinct ys" and "i < length ys"
  shows "ys ! i \<in> set (drop n ys) \<longleftrightarrow> n \<le> i"
proof -
  have "set ys = set (take n ys) \<union> set (drop n ys)"
    by (metis append_take_drop_id set_append)
  moreover have "set (take n ys) \<inter> set (drop n ys) = {}"
    using assms(1) by (metis append_take_drop_id distinct_append)
  moreover have "ys ! i \<in> set ys"
    using assms(2) by simp
  ultimately have "ys ! i \<in> set (drop n ys) \<longleftrightarrow> ys ! i \<notin> set (take n ys)"
    by blast
  then show ?thesis
    using nth_in_take_iff [OF assms, of n] by auto
qed

lemma nth_in_take_drop_iff:
  assumes "distinct ys" and "i < length ys"
  shows "ys ! i \<in> set (take k (drop g ys)) \<longleftrightarrow> g \<le> i \<and> i < g + k"
proof -
  have split: "take (g + k) ys = take g ys @ take k (drop g ys)"
    by (rule take_add)
  have "distinct (take (g + k) ys)"
    using assms(1) by simp
  then have disj: "set (take g ys) \<inter> set (take k (drop g ys)) = {}"
    unfolding split by simp
  have "ys ! i \<in> set (take (g + k) ys) \<longleftrightarrow> ys ! i \<in> set (take g ys) \<or> ys ! i \<in> set (take k (drop g ys))"
    unfolding split by simp
  then show ?thesis
    using disj nth_in_take_iff [OF assms, of "g + k"] nth_in_take_iff [OF assms, of g] by auto
qed

lemma symbol_image_take: "symbol ` set (take n xs) = set (take n (map symbol xs))"
  by (simp add: take_map)

lemma symbol_image_drop: "symbol ` set (drop n xs) = set (drop n (map symbol xs))"
  by (simp add: drop_map)

lemma symbol_image_take_drop: "symbol ` set (take k (drop n xs)) = set (take k (drop n (map symbol xs)))"
  by (simp add: drop_map take_map)

lemma distinct_symbols_filter: "distinct (map symbol ships) \<Longrightarrow> distinct (map symbol (filter P ships))"
  by (rule distinct_map_filter)

lemma distinct_symbols_sort:
  "distinct (map symbol xs) \<Longrightarrow> distinct (map symbol (sort_key f xs))"
  by (simp add: distinct_map)

lemma sort_desc_sorted: "sorted_wrt (\<lambda>a b. cargo b \<le> cargo a) (sort_key (\<lambda>s. - cargo s) xs)"
proof -
  have "sorted (map (\<lambda>s. - cargo s) (sort_key (\<lambda>s. - cargo s) xs))"
    by (rule sorted_sort_key)
  then show ?thesis
    by (simp add: sorted_wrt_map)
qed

lemma probe_symbol_not_cargo:
  assumes "distinct (map symbol ships)" and "p \<in> set (filter (is_probe sk ov) ships)"
  shows "symbol p \<notin> symbol ` set (filter (is_cargo sk ov) ships)"
proof
  assume "symbol p \<in> symbol ` set (filter (is_cargo sk ov) ships)"
  then obtain c where c: "c \<in> set ships" "is_cargo sk ov c" "symbol c = symbol p"
    by auto
  have "inj_on symbol (set ships)"
    using assms(1) by (simp add: distinct_map)
  then have "c = p"
    using c assms(2) by (auto dest: inj_onD)
  then show False
    using c(2) assms(2) by (auto simp: is_probe_def is_cargo_def)
qed

lemma evaluate_probe:
  assumes "distinct (map symbol ships)" and "p \<in> set (filter (is_probe sk (the_overrides ovo)) ships)"
  shows "evaluate capital credits ships cur hc cp gn mr sk ovo (symbol p) = Some (assign SCAN)"
proof -
  define ov where "ov = the_overrides ovo"
  have p: "symbol p \<in> symbol ` set (filter (is_probe sk ov) ships)"
    using assms(2) unfolding ov_def by (rule imageI)
  have nc: "symbol p \<notin> symbol ` set (filter (is_cargo sk ov) ships)"
    using assms unfolding ov_def by (rule probe_symbol_not_cargo)
  show ?thesis
  proof (cases "credits < idle_threshold capital")
    case True
    show ?thesis
      unfolding evaluate_low_credits [OF True] ov_def [symmetric]
      using p nc by (simp add: assign_each_apply)
  next
    case False
    then have le: "idle_threshold capital \<le> credits"
      by simp
    define sorted where "sorted = sort_key (\<lambda>s. - cargo s) (filter (is_cargo sk ov) ships)"
    have "set sorted = set (filter (is_cargo sk ov) ships)"
      by (simp add: sorted_def)
    then have ns: "symbol p \<notin> symbol ` set sorted"
      using nc by simp
    have n1: "symbol p \<notin> symbol ` set (take g sorted)" for g
      using ns by (auto dest: in_set_takeD)
    have n2: "symbol p \<notin> symbol ` set (drop g sorted)" for g
      using ns by (auto dest: in_set_dropD)
    have n3: "symbol p \<notin> symbol ` set (take k (drop g sorted))" for g k
      using n2 [of g] by (auto dest: in_set_takeD)
    show ?thesis
      unfolding evaluate_normal_form [OF le] Let_def ov_def [symmetric] sorted_def [symmetric]
      using p n1 n2 n3 by (simp add: assign_each_apply)
  qed
qed

lemma evaluate_cargo_low_credits:
  assumes "credits < idle_threshold capital" and "c \<in> set (filter (is_cargo sk (the_overrides ovo)) ships)"
  shows "evaluate capital credits ships cur hc cp gn mr sk ovo (symbol c) = Some (assign IDLE)"
proof -
  have "symbol c \<in> symbol ` set (filter (is_cargo sk (the_overrides ovo)) ships)"
    using assms(2) by (rule imageI)
  then show ?thesis
    unfolding evaluate_low_credits [OF assms(1)] by (simp add: assign_each_apply)
qed

lemma evaluate_cargo_sorted:
  assumes le: "idle_threshold capital \<le> credits" and d: "distinct (map symbol ships)"
    and i: "i < length (sort_key (\<lambda>s. - cargo s) (filter (is_cargo sk (the_overrides ovo)) ships))"
  shows "evaluate capital credits ships cur hc cp gn mr sk ovo
           (symbol (sort_key (\<lambda>s. - cargo s) (filter (is_cargo sk (the_overrides ovo)) ships) ! i))
         = Some (cargo_assignment capital credits hc cp gn mr
                   (length (filter (is_cargo sk (the_overrides ovo)) ships)) i)"
proof -
  define ov where "ov = the_overrides ovo"
  define sorted where "sorted = sort_key (\<lambda>s. - cargo s) (filter (is_cargo sk ov) ships)"
  define ys where "ys = map symbol sorted"
  define g where "g = gate_count capital credits gn (length sorted)"
  define k where "k = contract_count hc cp (length sorted - g)"
  have len: "length sorted = length (filter (is_cargo sk ov) ships)"
    by (simp add: sorted_def)
  have dys: "distinct ys"
    unfolding ys_def sorted_def using d by (intro distinct_symbols_sort distinct_symbols_filter)
  have iys: "i < length ys"
    using i by (simp add: ys_def sorted_def ov_def)
  have x: "symbol (sorted ! i) = ys ! i"
    using iys by (simp add: ys_def)
  have "evaluate capital credits ships cur hc cp gn mr sk ovo (ys ! i)
        = (if ys ! i \<in> set (drop (g + k) ys)
           then Some (assign (if mr \<and> trade_min capital \<le> credits then TRADE else IDLE))
           else if ys ! i \<in> set (take k (drop g ys)) then Some (assign CONTRACT)
           else if ys ! i \<in> set (take g ys)
           then Some \<lparr>mission = GATE_BUILD, kwargs = [(''capital_floor'', gate_floor capital)]\<rparr>
           else assign_each (assign SCAN) (filter (is_probe sk ov) ships) (direct_plan sk ov ships) (ys ! i))"
    unfolding evaluate_normal_form [OF le] Let_def ov_def [symmetric] sorted_def [symmetric]
      g_def [symmetric] k_def [symmetric] assign_each_apply [of _ "drop (g + k) sorted"]
      assign_each_apply [of _ "take k (drop g sorted)"] assign_each_apply [of _ "take g sorted"]
      symbol_image_take symbol_image_drop symbol_image_take_drop drop_map [symmetric]
      ys_def [symmetric] ..
  also have "\<dots> = Some (cargo_assignment capital credits hc cp gn mr (length sorted) i)"
    unfolding nth_in_drop_iff [OF dys iys] nth_in_take_iff [OF dys iys]
      nth_in_take_drop_iff [OF dys iys]
    by (auto simp: cargo_assignment_def Let_def g_def [symmetric] k_def [symmetric])
  finally show ?thesis
    unfolding x [symmetric] sorted_def ov_def len by simp
qed

lemma evaluate_per_ship:
  assumes "distinct (map symbol ships)"
  shows "let ov = the_overrides overrides;
             probes = filter (is_probe skip_ships ov) ships;
             cargo_ships = filter (is_cargo skip_ships ov) ships;
             sorted = sort_key (\<lambda>s. - cargo s) cargo_ships;
             plan = evaluate capital credits ships current_assignments has_active_contract
                      contract_profitable gate_needs_supplies market_routes_available skip_ships
                      overrides
         in (\<forall>p \<in> set probes. plan (symbol p) = Some (assign SCAN))
            \<and> (credits < idle_threshold capital \<longrightarrow>
                 (\<forall>c \<in> set cargo_ships. plan (symbol c) = Some (assign IDLE)))
            \<and> (idle_threshold capital \<le> credits \<longrightarrow>
                 sorted_wrt (\<lambda>a b. cargo b \<le> cargo a) sorted \<and> mset sorted = mset cargo_ships
                 \<and> (\<forall>i < length sorted. plan (symbol (sorted ! i)) =
                       Some (cargo_assignment capital credits has_active_contract
                               contract_profitable gate_needs_supplies market_routes_available
                               (length sorted) i)))"
  unfolding Let_def
proof (intro conjI ballI impI allI)
  fix p
  assume "p \<in> set (filter (is_probe skip_ships (the_overrides overrides)) ships)"
  with assms show "evaluate capital credits ships current_assignments has_active_contract
      contract_profitable gate_needs_supplies market_routes_available skip_ships overrides (symbol p)
      = Some (assign SCAN)"
    by (rule evaluate_probe)
next
  fix c
  assume "credits < idle_threshold capital"
    and "c \<in> set (filter (is_cargo skip_ships (the_overrides overrides)) ships)"
  then show "evaluate capital credits ships current_assignments has_active_contract
      contract_profitable gate_needs_supplies market_routes_available skip_ships overrides (symbol c)
      = Some (assign IDLE)"
    by (rule evaluate_cargo_low_credits)
next
  show "sorted_wrt (\<lambda>a b. cargo b \<le> cargo a)
     (sort_key (\<lambda>s. - cargo s) (filter (is_cargo skip_ships (the_overrides overrides)) ships))"
    by (rule sort_desc_sorted)
next
  show "mset (sort_key (\<lambda>s. - cargo s) (filter (is_cargo skip_ships (the_overrides overrides)) ships))
      = mset (filter (is_cargo skip_ships (the_overrides overrides)) ships)"
    by (rule mset_sort)
next
  fix i
  assume le: "idle_threshold capital \<le> credits"
    and i: "i < length (sort_key (\<lambda>s. - cargo s)
                 (filter (is_cargo skip_ships (the_overrides overrides)) ships))"
  show "evaluate capital credits ships current_assignments has_active_contract
      contract_profitable gate_needs_supplies market_routes_available skip_ships overrides
      (symbol (sort_key (\<lambda>s. - cargo s)
                 (filter (is_cargo skip_ships (the_overrides overrides)) ships) ! i))
      = Some (cargo_assignment capital credits has_active_contract contract_profitable
                gate_needs_supplies market_routes_available
                (length (sort_key (\<lambda>s. - cargo s)
                   (filter (is_cargo skip_ships (the_overrides overrides)) ships))) i)"
    using evaluate_cargo_sorted [OF le assms i] by simp
qed

text \<open>
  C1. The plan of \<open>evaluate\<close> follows the decision order. The cargo ships of the
  partition are sorted by cargo capacity descending (a sorted permutation). For every
  input the plan is what these writes leave, in this order: the assignments of the
  partition loop; \<open>SCAN\<close> for the probes; then, when the credits are below the idle
  threshold, \<open>IDLE\<close> for every cargo ship; otherwise \<open>GATE_BUILD\<close> with
  \<open>{capital_floor: gate_floor}\<close> for the first sorted ship when the gate needs supplies,
  the credits reach the gate floor and a cargo ship remains, \<open>CONTRACT\<close> for up to two
  of the next under an active profitable contract, and for all the rest \<open>TRADE\<close> when
  routes are available and the credits reach the trade minimum, else \<open>IDLE\<close>. When the
  ships have pairwise distinct symbols no write is overwritten: every probe is assigned
  \<open>SCAN\<close>, and every cargo ship \<open>IDLE\<close> below the idle threshold and otherwise the
  \<open>cargo_assignment\<close> of its position in the sorted list.
\<close>

theorem evaluate_decision_order:
  "let ov = the_overrides overrides;
       probes = filter (is_probe skip_ships ov) ships;
       cargo_ships = filter (is_cargo skip_ships ov) ships;
       sorted = sort_key (\<lambda>s. - cargo s) cargo_ships;
       g = gate_count capital credits gate_needs_supplies (length sorted);
       k = contract_count has_active_contract contract_profitable (length sorted - g);
       scanning = assign_each (assign SCAN) probes (direct_plan skip_ships ov ships);
       plan = evaluate capital credits ships current_assignments has_active_contract
                contract_profitable gate_needs_supplies market_routes_available skip_ships
                overrides
   in sorted_wrt (\<lambda>a b. cargo b \<le> cargo a) sorted \<and> mset sorted = mset cargo_ships
      \<and> (credits < idle_threshold capital \<longrightarrow>
           plan = assign_each (assign IDLE) cargo_ships scanning)
      \<and> (idle_threshold capital \<le> credits \<longrightarrow>
           plan = assign_each
                    (assign (if market_routes_available \<and> trade_min capital \<le> credits
                             then TRADE else IDLE))
                    (drop (g + k) sorted)
                    (assign_each (assign CONTRACT) (take k (drop g sorted))
                       (assign_each
                          \<lparr>mission = GATE_BUILD,
                           kwargs = [(''capital_floor'', gate_floor capital)]\<rparr>
                          (take g sorted) scanning)))
      \<and> (distinct (map symbol ships) \<longrightarrow>
           (\<forall>p \<in> set probes. plan (symbol p) = Some (assign SCAN))
           \<and> (credits < idle_threshold capital \<longrightarrow>
                (\<forall>c \<in> set cargo_ships. plan (symbol c) = Some (assign IDLE)))
           \<and> (idle_threshold capital \<le> credits \<longrightarrow>
                (\<forall>i < length sorted. plan (symbol (sorted ! i)) =
                   Some (cargo_assignment capital credits has_active_contract
                           contract_profitable gate_needs_supplies market_routes_available
                           (length sorted) i))))"
proof -
  have order: "sorted_wrt (\<lambda>a b. cargo b \<le> cargo a)
      (sort_key (\<lambda>s. - cargo s) (filter (is_cargo skip_ships (the_overrides overrides)) ships))"
    by (rule sort_desc_sorted)
  have perm: "mset (sort_key (\<lambda>s. - cargo s)
        (filter (is_cargo skip_ships (the_overrides overrides)) ships))
      = mset (filter (is_cargo skip_ships (the_overrides overrides)) ships)"
    by (rule mset_sort)
  have low: "credits < idle_threshold capital \<longrightarrow>
      evaluate capital credits ships current_assignments has_active_contract contract_profitable
        gate_needs_supplies market_routes_available skip_ships overrides
      = assign_each (assign IDLE) (filter (is_cargo skip_ships (the_overrides overrides)) ships)
          (assign_each (assign SCAN) (filter (is_probe skip_ships (the_overrides overrides)) ships)
             (direct_plan skip_ships (the_overrides overrides) ships))"
    by (simp add: evaluate_low_credits)
  have high: "idle_threshold capital \<le> credits \<longrightarrow>
      evaluate capital credits ships current_assignments has_active_contract contract_profitable
        gate_needs_supplies market_routes_available skip_ships overrides
      = (let ov = the_overrides overrides;
             sorted = sort_key (\<lambda>s. - cargo s) (filter (is_cargo skip_ships ov) ships);
             g = gate_count capital credits gate_needs_supplies (length sorted);
             k = contract_count has_active_contract contract_profitable (length sorted - g)
         in assign_each
              (assign (if market_routes_available \<and> trade_min capital \<le> credits
                       then TRADE else IDLE))
              (drop (g + k) sorted)
              (assign_each (assign CONTRACT) (take k (drop g sorted))
                 (assign_each
                    \<lparr>mission = GATE_BUILD, kwargs = [(''capital_floor'', gate_floor capital)]\<rparr>
                    (take g sorted)
                    (assign_each (assign SCAN) (filter (is_probe skip_ships ov) ships)
                       (direct_plan skip_ships ov ships)))))"
    using evaluate_normal_form by blast
  have each: "distinct (map symbol ships) \<longrightarrow>
      (let ov = the_overrides overrides;
           probes = filter (is_probe skip_ships ov) ships;
           cargo_ships = filter (is_cargo skip_ships ov) ships;
           sorted = sort_key (\<lambda>s. - cargo s) cargo_ships;
           plan = evaluate capital credits ships current_assignments has_active_contract
                    contract_profitable gate_needs_supplies market_routes_available skip_ships
                    overrides
       in (\<forall>p \<in> set probes. plan (symbol p) = Some (assign SCAN))
          \<and> (credits < idle_threshold capital \<longrightarrow>
               (\<forall>c \<in> set cargo_ships. plan (symbol c) = Some (assign IDLE)))
          \<and> (idle_threshold capital \<le> credits \<longrightarrow>
               sorted_wrt (\<lambda>a b. cargo b \<le> cargo a) sorted \<and> mset sorted = mset cargo_ships
               \<and> (\<forall>i < length sorted. plan (symbol (sorted ! i)) =
                     Some (cargo_assignment capital credits has_active_contract
                             contract_profitable gate_needs_supplies market_routes_available
                             (length sorted) i))))"
    using evaluate_per_ship by blast
  show ?thesis
    using order perm low high each unfolding Let_def by blast
qed

theorem evaluate_decision_order_witness:
  "distinct (map symbol fleet5)
   \<and> (500000::int) \<ge> idle_threshold default_CapitalPolicy
   \<and> evaluate default_CapitalPolicy 500000 fleet5 Map.empty True True True True {} None ''P-1''
       = Some (assign SCAN)
   \<and> evaluate default_CapitalPolicy 500000 fleet5 Map.empty True True True True {} None ''S-2''
       = Some \<lparr>mission = GATE_BUILD, kwargs = [(''capital_floor'', 300000)]\<rparr>
   \<and> evaluate default_CapitalPolicy 500000 fleet5 Map.empty True True True True {} None ''S-3''
       = Some (assign CONTRACT)
   \<and> evaluate default_CapitalPolicy 500000 fleet5 Map.empty True True True True {} None ''S-1''
       = Some (assign CONTRACT)
   \<and> evaluate default_CapitalPolicy 500000 fleet5 Map.empty True True True True {} None ''S-4''
       = Some (assign TRADE)
   \<and> (10000::int) < idle_threshold default_CapitalPolicy
   \<and> evaluate default_CapitalPolicy 10000 fleet5 Map.empty True True True True {} None ''S-2''
       = Some (assign IDLE)
   \<and> evaluate default_CapitalPolicy 10000 fleet5 Map.empty True True True True {} None ''P-1''
       = Some (assign SCAN)"
proof -
  have d: "distinct (map symbol fleet5)"
    by (simp add: fleet5_def)
  have th: "idle_threshold default_CapitalPolicy = 30000"
    by (simp add: default_CapitalPolicy_def)
  have rich: "idle_threshold default_CapitalPolicy \<le> 500000"
    and poor: "10000 < idle_threshold default_CapitalPolicy"
    by (simp_all add: th)
  note hi = evaluate_decision_order [of None "{}" fleet5 default_CapitalPolicy 500000 True True
      True Map.empty True, unfolded Let_def]
  note lo = evaluate_decision_order [of None "{}" fleet5 default_CapitalPolicy 10000 True True
      True Map.empty True, unfolded Let_def]
  have probes: "filter (is_probe {} (the_overrides None)) fleet5 = [fleet5 ! 4]"
    by (simp add: fleet5_def is_probe_def the_overrides_def)
  have cargo5: "filter (is_cargo {} (the_overrides None)) fleet5
      = [fleet5 ! 0, fleet5 ! 1, fleet5 ! 2, fleet5 ! 3]"
    by (simp add: fleet5_def is_cargo_def the_overrides_def)
  have s5: "sort_key (\<lambda>s. - cargo s) [fleet5 ! 0, fleet5 ! 1, fleet5 ! 2, fleet5 ! 3]
      = [fleet5 ! 1, fleet5 ! 2, fleet5 ! 0, fleet5 ! 3]"
    by (simp add: fleet5_def)
  have len4: "length [fleet5 ! 1, fleet5 ! 2, fleet5 ! 0, fleet5 ! 3] = 4"
    by simp
  have hi_probes: "\<forall>p \<in> set [fleet5 ! 4].
      evaluate default_CapitalPolicy 500000 fleet5 Map.empty True True True True {} None (symbol p)
      = Some (assign SCAN)"
    using hi d unfolding probes by blast
  have hi_sorted: "\<forall>i < 4.
      evaluate default_CapitalPolicy 500000 fleet5 Map.empty True True True True {} None
        (symbol ([fleet5 ! 1, fleet5 ! 2, fleet5 ! 0, fleet5 ! 3] ! i))
      = Some (cargo_assignment default_CapitalPolicy 500000 True True True True 4 i)"
    using hi d rich unfolding cargo5 s5 len4 by blast
  have lo_probes: "\<forall>p \<in> set [fleet5 ! 4].
      evaluate default_CapitalPolicy 10000 fleet5 Map.empty True True True True {} None (symbol p)
      = Some (assign SCAN)"
    using lo d unfolding probes by blast
  have lo_cargo: "\<forall>c \<in> set [fleet5 ! 0, fleet5 ! 1, fleet5 ! 2, fleet5 ! 3].
      evaluate default_CapitalPolicy 10000 fleet5 Map.empty True True True True {} None (symbol c)
      = Some (assign IDLE)"
    using lo d poor unfolding cargo5 by blast
  have four: "(0::nat) < 4" "(1::nat) < 4" "(2::nat) < 4" "(3::nat) < 4"
    by simp_all
  show ?thesis
    using hi_probes hi_sorted [rule_format, OF four(1)] hi_sorted [rule_format, OF four(2)]
      hi_sorted [rule_format, OF four(3)] hi_sorted [rule_format, OF four(4)] lo_probes lo_cargo
    by (simp add: d th fleet5_def cargo_assignment_def gate_count_def contract_count_def
        default_CapitalPolicy_def)
qed

subsection \<open>Coverage of the plan and its changes\<close>

lemma changes_from_iff:
  "changes_from plan current ship = Some (old, new) \<longleftrightarrow>
     plan ship = Some new \<and> old = (case current ship of None \<Rightarrow> IDLE | Some m \<Rightarrow> m)
     \<and> mission new \<noteq> old"
  by (auto simp: changes_from_def Let_def split: option.splits)

text \<open>
  C6. The keys of the plan \<open>evaluate\<close> returns are exactly the symbols of the input
  ships, one assignment for each; and \<open>changes_from\<close> has the entry \<open>(old, new)\<close> for a
  ship exactly when the plan assigns it \<open>new\<close>, \<open>old\<close> is its current mission
  (\<open>IDLE\<close> when the current map has none) and the mission of \<open>new\<close> differs from \<open>old\<close>.
\<close>

theorem plan_covers_ships_and_changes_differ:
  "dom (evaluate capital credits ships current_assignments has_active_contract contract_profitable
          gate_needs_supplies market_routes_available skip_ships overrides) = symbol ` set ships
   \<and> (\<forall>ship old new.
         changes_from plan current ship = Some (old, new) \<longleftrightarrow>
           plan ship = Some new \<and> old = (case current ship of None \<Rightarrow> IDLE | Some m \<Rightarrow> m)
           \<and> mission new \<noteq> old)"
  using dom_evaluate changes_from_iff by simp

theorem plan_covers_ships_and_changes_differ_witness:
  "dom (evaluate default_CapitalPolicy 500000 fleet5 Map.empty True True True True {} None)
     = {''S-1'', ''S-2'', ''S-3'', ''S-4'', ''P-1''}
   \<and> changes_from [''S-1'' \<mapsto> assign TRADE, ''P-1'' \<mapsto> assign SCAN] [''P-1'' \<mapsto> SCAN] ''S-1''
       = Some (IDLE, assign TRADE)
   \<and> changes_from [''S-1'' \<mapsto> assign TRADE, ''P-1'' \<mapsto> assign SCAN] [''P-1'' \<mapsto> SCAN] ''P-1''
       = None"
proof -
  note t = plan_covers_ships_and_changes_differ [of default_CapitalPolicy 500000 fleet5 Map.empty
      True True True True "{}" None "[''S-1'' \<mapsto> assign TRADE, ''P-1'' \<mapsto> assign SCAN]"
      "[''P-1'' \<mapsto> SCAN]"]
  have "symbol ` set fleet5 = {''S-1'', ''S-2'', ''S-3'', ''S-4'', ''P-1''}"
    by (simp add: fleet5_def)
  moreover have "changes_from [''S-1'' \<mapsto> assign TRADE, ''P-1'' \<mapsto> assign SCAN] [''P-1'' \<mapsto> SCAN]
      ''S-1'' = Some (IDLE, assign TRADE)"
    using t by (simp add: assign_def)
  moreover have "changes_from [''S-1'' \<mapsto> assign TRADE, ''P-1'' \<mapsto> assign SCAN] [''P-1'' \<mapsto> SCAN]
      ''P-1'' = None"
    using t by (simp add: assign_def changes_from_def)
  ultimately show ?thesis
    using t by simp
qed

section \<open>Unknown coordinates\<close>

text \<open>
  C9. When origin and destination differ and one of them has no entry in the coordinate
  map, \<open>plan_multihop\<close> returns (it does not raise) the infeasible plan without segments
  whose reason names the two waypoints.
\<close>

theorem plan_multihop_unknown_coordinates:
  assumes "origin \<noteq> destination" and "coords origin = None \<or> coords destination = None"
  shows "plan_multihop coords fuel_waypoints origin destination fuel_capacity speed mode =
     Inr \<lparr>segments = [], total_fuel = 0, total_seconds = 0, feasible = False,
           reason = ''Unknown coordinates for '' @ origin @ '' or '' @ destination\<rparr>"
  using assms by (simp add: plan_multihop_def infeasible_def)

theorem plan_multihop_unknown_coordinates_witness:
  "''A'' \<noteq> ''Z'' \<and> ([''A'' \<mapsto> (0, 0)] ''A'' = None \<or> [''A'' \<mapsto> (0::int, 0::int)] ''Z'' = None)
   \<and> plan_multihop [''A'' \<mapsto> (0, 0)] [''B''] ''A'' ''Z'' 50 30 ''CRUISE'' =
     Inr \<lparr>segments = [], total_fuel = 0, total_seconds = 0, feasible = False,
           reason = ''Unknown coordinates for A or Z''\<rparr>"
  using plan_multihop_unknown_coordinates [of "''A''" "''Z''" "[''A'' \<mapsto> (0, 0)]" "[''B'']" 50 30
      "''CRUISE''"]
  by simp

section \<open>Contract profitability\<close>

lemma cost_lines_unpriced:
  assumes "d \<in> set ds" and "units_fulfilled d < units_required d"
    and "find_best_buy (trade_symbol d) system = None"
  shows "\<exists>good. cost_lines find_best_buy system ds total_cost details
           = Inl (False, 0, NoMarketSells good)"
  using assms(1)
proof (induction ds arbitrary: total_cost details)
  case Nil
  then show ?case by simp
next
  case (Cons e ds)
  show ?case
  proof (cases "units_required e - units_fulfilled e \<le> 0")
    case True
    then have "e \<noteq> d"
      using assms(2) by auto
    then have "d \<in> set ds"
      using Cons.prems by simp
    then show ?thesis
      using True Cons.IH by simp
  next
    case False
    show ?thesis
    proof (cases "find_best_buy (trade_symbol e) system")
      case None
      then show ?thesis
        using False by simp
    next
      case (Some best)
      then have "e \<noteq> d"
        using assms(3) by auto
      then have "d \<in> set ds"
        using Cons.prems by simp
      then show ?thesis
        using False Some Cons.IH by (simp add: Let_def)
    qed
  qed
qed

text \<open>
  C10. When some delivery line with units remaining has no cached buy market for its
  good, the evaluation returns \<open>profitable = False\<close> with estimated profit 0 and the
  explanation that no market sells a good; the payment-minus-cost formula is not applied.
\<close>

theorem unpriced_delivery_is_unprofitable:
  assumes "d \<in> set (deliver (terms contract))" and "units_fulfilled d < units_required d"
    and "find_best_buy (trade_symbol d) system = None"
  shows "\<exists>good. evaluate_profitability find_best_buy contract system
           = (False, 0, NoMarketSells good)"
proof -
  obtain good where "cost_lines find_best_buy system (deliver (terms contract)) 0 []
      = Inl (False, 0, NoMarketSells good)"
    using cost_lines_unpriced [of d "deliver (terms contract)" find_best_buy system 0 "[]"] assms
    by blast
  then show ?thesis
    by (simp add: evaluate_profitability_def)
qed

theorem unpriced_delivery_is_unprofitable_witness:
  "deliver (terms two_line_contract) ! 1 \<in> set (deliver (terms two_line_contract))
   \<and> units_fulfilled (deliver (terms two_line_contract) ! 1)
       < units_required (deliver (terms two_line_contract) ! 1)
   \<and> iron_only_market (trade_symbol (deliver (terms two_line_contract) ! 1)) ''X1'' = None
   \<and> (\<exists>good. evaluate_profitability iron_only_market two_line_contract ''X1''
         = (False, 0, NoMarketSells good))"
proof -
  have a: "deliver (terms two_line_contract) ! 1 \<in> set (deliver (terms two_line_contract))"
    by (simp add: two_line_contract_def)
  have b: "units_fulfilled (deliver (terms two_line_contract) ! 1)
       < units_required (deliver (terms two_line_contract) ! 1)"
    by (simp add: two_line_contract_def)
  have c: "iron_only_market (trade_symbol (deliver (terms two_line_contract) ! 1)) ''X1'' = None"
    by (simp add: two_line_contract_def iron_only_market_def)
  from a b c unpriced_delivery_is_unprofitable [of "deliver (terms two_line_contract) ! 1"
      two_line_contract iron_only_market "''X1''"]
  show ?thesis
    by blast
qed

section \<open>Crash recovery\<close>

lemma last_backoff_index: "length RESTART_BACKOFF - 1 = 4" "length RESTART_BACKOFF - Suc 0 = 4"
  by (simp_all add: RESTART_BACKOFF_def)

lemma RESTART_BACKOFF_table:
  "RESTART_BACKOFF ! min n 4 =
     (if n = 0 then 10 else if n = 1 then 30 else if n = 2 then 60 else if n = 3 then 120 else 300)"
proof -
  consider "n = 0" | "n = 1" | "n = 2" | "n = 3" | "4 \<le> n"
    by linarith
  then show ?thesis
    by cases (simp_all add: RESTART_BACKOFF_def min_def numeral_eq_Suc)
qed

lemma handle_crash_restart:
  assumes "agents st ship = Some agent" and "restart_count agent < MAX_RESTARTS"
  shows "handle_crash registered t False st ship =
     st\<lparr>sleeps := sleeps st @ [RESTART_BACKOFF ! min (restart_count agent) 4],
        agents := (agents st)(ship \<mapsto> fst (relaunch registered t agent)),
        active_tasks := (active_tasks st)(ship := snd (relaunch registered t agent))\<rparr>"
  using assms by (cases "relaunch registered t agent"; cases "snd (relaunch registered t agent)")
    (simp_all add: handle_crash_def Let_def last_backoff_index)

lemma handle_crash_shutdown:
  assumes "agents st ship = Some agent" and "restart_count agent < MAX_RESTARTS"
  shows "handle_crash registered t True st ship =
     st\<lparr>sleeps := sleeps st @ [RESTART_BACKOFF ! min (restart_count agent) 4],
        active_tasks := (active_tasks st)(ship := None)\<rparr>"
  using assms by (simp add: handle_crash_def Let_def last_backoff_index)

lemma handle_crash_park:
  assumes "agents st ship = Some agent" and "MAX_RESTARTS \<le> restart_count agent"
  shows "handle_crash registered t shutdown_is_set st ship =
     st\<lparr>agents := (agents st)(ship \<mapsto> agent\<lparr>agent_mission := IDLE\<rparr>),
        active_tasks := (active_tasks st)(ship := None)\<rparr>"
  using assms by (simp add: handle_crash_def)

lemma relaunch_running:
  assumes "agent_mission agent \<noteq> IDLE" and "registered (agent_mission agent)"
  shows "relaunch registered t agent =
     (agent\<lparr>restart_count := restart_count agent + 1, task := Some t\<rparr>, Some t)"
  using assms by (simp add: relaunch_def launch_def)

lemma relaunch_count: "restart_count (fst (relaunch registered t agent)) = restart_count agent + 1"
  by (simp add: relaunch_def launch_def)

lemma relaunch_mission: "agent_mission (fst (relaunch registered t agent)) = agent_mission agent"
  by (simp add: relaunch_def launch_def)

lemma five_restarts:
  assumes "agents st ship = Some agent" and "restart_count agent = 0"
    and "agent_mission agent \<noteq> IDLE" and "registered (agent_mission agent)"
  shows "handle_crashes registered ship st [t1, t2, t3, t4, t5] =
     st\<lparr>sleeps := sleeps st @ [10, 30, 60, 120, 300],
        agents := (agents st)(ship \<mapsto> agent\<lparr>restart_count := 5, task := Some t5\<rparr>),
        active_tasks := (active_tasks st)(ship \<mapsto> t5)\<rparr>"
  using assms
  by (simp add: handle_crashes_def handle_crash_def relaunch_def launch_def MAX_RESTARTS_def
      RESTART_BACKOFF_def Let_def eval_nat_numeral)

lemma handle_crashes_snoc:
  "handle_crashes registered ship st (ts @ [t]) =
     handle_crash registered t False (handle_crashes registered ship st ts) ship"
  by (simp add: handle_crashes_def)

lemma sixth_crash_parks:
  assumes "agents st ship = Some agent" and "restart_count agent = 0"
    and "agent_mission agent \<noteq> IDLE" and "registered (agent_mission agent)"
  shows "handle_crashes registered ship st [t1, t2, t3, t4, t5, t6] =
     st\<lparr>sleeps := sleeps st @ [10, 30, 60, 120, 300],
        agents := (agents st)(ship \<mapsto>
                     agent\<lparr>restart_count := 5, task := Some t5, agent_mission := IDLE\<rparr>),
        active_tasks := (active_tasks st)(ship := None)\<rparr>"
proof -
  have "handle_crashes registered ship st [t1, t2, t3, t4, t5, t6] =
      handle_crash registered t6 False (handle_crashes registered ship st [t1, t2, t3, t4, t5]) ship"
    using handle_crashes_snoc [of registered ship st "[t1, t2, t3, t4, t5]" t6] by simp
  then show ?thesis
    unfolding five_restarts [where st = st and ship = ship and agent = agent
        and registered = registered, OF assms]
    by (simp add: handle_crash_def MAX_RESTARTS_def)
qed

text \<open>
  C4, as amended: what the crash handler does on one crash event of an agent known to
  the commander. With \<open>restart_count\<close> below \<open>MAX_RESTARTS\<close> it sleeps
  \<open>RESTART_BACKOFF[min(restart_count, 4)]\<close> seconds, that is 10, 30, 60, 120, 300 for
  counts 0 to 4, and then, unless shutdown was signalled during the sleep, relaunches
  the agent, which adds one to \<open>restart_count\<close>. With \<open>restart_count\<close> at
  \<open>MAX_RESTARTS\<close> or above it sleeps nothing, marks the ship \<open>IDLE\<close>, drops its task
  handle and launches nothing. So when the handler is called for the successive crashes
  of a fresh agent with a registered mission, and nothing else changes the agent between
  the calls, it restarts the agent on each of the first five calls, with those five
  delays, and marks it \<open>IDLE\<close> on the sixth. The statement ends where the handler
  returns: what the event loop does with the ship afterwards is not part of it.
\<close>

theorem crash_restart_policy:
  assumes "agents st ship = Some agent"
  shows "(restart_count agent < MAX_RESTARTS \<longrightarrow>
            sleeps (handle_crash registered t shutdown_is_set st ship)
              = sleeps st @ [RESTART_BACKOFF ! min (restart_count agent) 4]
            \<and> RESTART_BACKOFF ! min (restart_count agent) 4
                = (if restart_count agent = 0 then 10 else if restart_count agent = 1 then 30
                   else if restart_count agent = 2 then 60
                   else if restart_count agent = 3 then 120 else 300)
            \<and> agents (handle_crash registered t False st ship) ship
                = Some (fst (relaunch registered t agent))
            \<and> restart_count (fst (relaunch registered t agent)) = restart_count agent + 1
            \<and> active_tasks (handle_crash registered t False st ship) ship
                = snd (relaunch registered t agent))
         \<and> (MAX_RESTARTS \<le> restart_count agent \<longrightarrow>
              agents (handle_crash registered t shutdown_is_set st ship) ship
                = Some (agent\<lparr>agent_mission := IDLE\<rparr>)
              \<and> active_tasks (handle_crash registered t shutdown_is_set st ship) ship = None
              \<and> sleeps (handle_crash registered t shutdown_is_set st ship) = sleeps st)
         \<and> (restart_count agent = 0 \<and> agent_mission agent \<noteq> IDLE
              \<and> registered (agent_mission agent) \<longrightarrow>
              handle_crashes registered ship st [t1, t2, t3, t4, t5] =
                st\<lparr>sleeps := sleeps st @ [10, 30, 60, 120, 300],
                   agents := (agents st)(ship \<mapsto> agent\<lparr>restart_count := 5, task := Some t5\<rparr>),
                   active_tasks := (active_tasks st)(ship \<mapsto> t5)\<rparr>
              \<and> handle_crashes registered ship st [t1, t2, t3, t4, t5, t6] =
                st\<lparr>sleeps := sleeps st @ [10, 30, 60, 120, 300],
                   agents := (agents st)(ship \<mapsto>
                      agent\<lparr>restart_count := 5, task := Some t5, agent_mission := IDLE\<rparr>),
                   active_tasks := (active_tasks st)(ship := None)\<rparr>)"
proof (intro conjI impI)
  {
    assume low: "restart_count agent < MAX_RESTARTS"
    show "sleeps (handle_crash registered t shutdown_is_set st ship)
        = sleeps st @ [RESTART_BACKOFF ! min (restart_count agent) 4]"
      using handle_crash_restart [OF assms low, of registered t]
        handle_crash_shutdown [OF assms low, of registered t]
      by (cases shutdown_is_set) simp_all
    show "RESTART_BACKOFF ! min (restart_count agent) 4
        = (if restart_count agent = 0 then 10 else if restart_count agent = 1 then 30
           else if restart_count agent = 2 then 60
           else if restart_count agent = 3 then 120 else 300)"
      by (rule RESTART_BACKOFF_table)
    show "agents (handle_crash registered t False st ship) ship
        = Some (fst (relaunch registered t agent))"
      by (simp add: handle_crash_restart [OF assms low])
    show "restart_count (fst (relaunch registered t agent)) = restart_count agent + 1"
      by (rule relaunch_count)
    show "active_tasks (handle_crash registered t False st ship) ship
        = snd (relaunch registered t agent)"
      by (simp add: handle_crash_restart [OF assms low])
  }
  {
    assume high: "MAX_RESTARTS \<le> restart_count agent"
    show "agents (handle_crash registered t shutdown_is_set st ship) ship
        = Some (agent\<lparr>agent_mission := IDLE\<rparr>)"
      by (simp add: handle_crash_park [OF assms high])
    show "active_tasks (handle_crash registered t shutdown_is_set st ship) ship = None"
      by (simp add: handle_crash_park [OF assms high])
    show "sleeps (handle_crash registered t shutdown_is_set st ship) = sleeps st"
      by (simp add: handle_crash_park [OF assms high])
  }
  {
    assume fresh: "restart_count agent = 0 \<and> agent_mission agent \<noteq> IDLE
      \<and> registered (agent_mission agent)"
    show "handle_crashes registered ship st [t1, t2, t3, t4, t5] =
        st\<lparr>sleeps := sleeps st @ [10, 30, 60, 120, 300],
           agents := (agents st)(ship \<mapsto> agent\<lparr>restart_count := 5, task := Some t5\<rparr>),
           active_tasks := (active_tasks st)(ship \<mapsto> t5)\<rparr>"
      using assms fresh by (intro five_restarts) simp_all
    show "handle_crashes registered ship st [t1, t2, t3, t4, t5, t6] =
        st\<lparr>sleeps := sleeps st @ [10, 30, 60, 120, 300],
           agents := (agents st)(ship \<mapsto>
              agent\<lparr>restart_count := 5, task := Some t5, agent_mission := IDLE\<rparr>),
           active_tasks := (active_tasks st)(ship := None)\<rparr>"
      using assms fresh by (intro sixth_crash_parks) simp_all
  }
qed

theorem crash_restart_policy_witness:
  "agents one_trader ''S-1'' = Some trader_agent
   \<and> restart_count trader_agent < MAX_RESTARTS
   \<and> restart_count trader_agent = 0 \<and> agent_mission trader_agent \<noteq> IDLE
   \<and> sleeps (handle_crash (\<lambda>m. True) 11 False one_trader ''S-1'') = [10]
   \<and> agents (handle_crash (\<lambda>m. True) 11 False one_trader ''S-1'') ''S-1''
       = Some (trader_agent\<lparr>restart_count := 1, task := Some 11\<rparr>)
   \<and> sleeps (handle_crashes (\<lambda>m. True) ''S-1'' one_trader [11, 12, 13, 14, 15, 16])
       = [10, 30, 60, 120, 300]
   \<and> active_tasks (handle_crashes (\<lambda>m. True) ''S-1'' one_trader [11, 12, 13, 14, 15, 16]) ''S-1'' = None
   \<and> agents worn_trader ''S-1'' = Some (trader_agent\<lparr>restart_count := 5\<rparr>)
   \<and> MAX_RESTARTS \<le> restart_count (trader_agent\<lparr>restart_count := 5\<rparr>)
   \<and> agents (handle_crash (\<lambda>m. True) 16 False worn_trader ''S-1'') ''S-1''
       = Some (trader_agent\<lparr>restart_count := 5, agent_mission := IDLE\<rparr>)
   \<and> active_tasks (handle_crash (\<lambda>m. True) 16 False worn_trader ''S-1'') ''S-1'' = None
   \<and> sleeps (handle_crash (\<lambda>m. True) 16 False worn_trader ''S-1'') = [10, 30, 60, 120, 300]"
proof -
  have a: "agents one_trader ''S-1'' = Some trader_agent"
    by (simp add: one_trader_def)
  have b: "agents worn_trader ''S-1'' = Some (trader_agent\<lparr>restart_count := 5\<rparr>)"
    by (simp add: worn_trader_def)
  note fresh = crash_restart_policy [OF a, of "\<lambda>m. True" 11 False 11 12 13 14 15 16]
  note worn = crash_restart_policy [OF b, of "\<lambda>m. True" 16 False 11 12 13 14 15 16]
  have c: "restart_count trader_agent = 0" "agent_mission trader_agent = TRADE"
    by (simp_all add: trader_agent_def)
  have r: "fst (relaunch (\<lambda>m. True) 11 trader_agent) = trader_agent\<lparr>restart_count := 1, task := Some 11\<rparr>"
    by (simp add: relaunch_def launch_def trader_agent_def)
  have s0: "sleeps one_trader = []" "sleeps worn_trader = [10, 30, 60, 120, 300]"
    by (simp_all add: one_trader_def worn_trader_def)
  show ?thesis
    using fresh worn by (simp add: a b c r s0 MAX_RESTARTS_def)
qed

text \<open>
  The fifth crash of a fresh agent finds \<open>restart_count = 4\<close>: the handler restarts the
  agent once more, after 300 seconds, and the agent keeps its mission and has a task.
  And a crash whose backoff ends with the shutdown signalled is slept out but not
  followed by a relaunch.
\<close>

theorem fifth_crash_restarts_counterexample:
  "agents (handle_crashes (\<lambda>m. True) ''S-1'' one_trader [1, 2, 3, 4, 5]) ''S-1''
     = Some \<lparr>agent_symbol = ''S-1'', agent_mission = TRADE, agent_system = ''X1'', task = Some 5,
             restart_count = 5, mission_kwargs = []\<rparr>
   \<and> active_tasks (handle_crashes (\<lambda>m. True) ''S-1'' one_trader [1, 2, 3, 4, 5]) ''S-1'' = Some 5
   \<and> sleeps (handle_crashes (\<lambda>m. True) ''S-1'' one_trader [1, 2, 3, 4, 5]) = [10, 30, 60, 120, 300]
   \<and> handle_crash (\<lambda>m. True) 7 True one_trader ''S-1''
       = \<lparr>agents = [''S-1'' \<mapsto> trader_agent], active_tasks = Map.empty, sleeps = [10]\<rparr>"
proof -
  have "handle_crash (\<lambda>m. True) 7 True one_trader ''S-1''
      = \<lparr>agents = [''S-1'' \<mapsto> trader_agent], active_tasks = Map.empty, sleeps = [10]\<rparr>"
    by (simp add: handle_crash_def one_trader_def trader_agent_def MAX_RESTARTS_def
        RESTART_BACKOFF_def Let_def)
  then show ?thesis
    by (simp add: handle_crashes_def handle_crash_def one_trader_def trader_agent_def relaunch_def
        launch_def MAX_RESTARTS_def RESTART_BACKOFF_def Let_def eval_nat_numeral)
qed

section \<open>Retries of the request primitive\<close>
















section \<open>The multi-hop planner\<close>

subsection \<open>Distance and time of one leg\<close>

lemma square_bound:
  fixes a b :: int
  assumes "\<bar>a\<bar> \<le> 2 ^ 500" and "\<bar>b\<bar> \<le> 2 ^ 500"
  shows "(b - a) ^ 2 \<le> 2 ^ 1002"
proof -
  have "\<bar>b - a\<bar> \<le> 2 ^ 501"
    using assms by simp
  then have "\<bar>b - a\<bar> ^ 2 \<le> (2 ^ 501) ^ 2"
    by (intro power_mono) simp_all
  then show ?thesis
    by simp
qed

lemma distance_in_range:
  assumes "\<bar>x1\<bar> \<le> 2 ^ 500" and "\<bar>y1\<bar> \<le> 2 ^ 500" and "\<bar>x2\<bar> \<le> 2 ^ 500" and "\<bar>y2\<bar> \<le> 2 ^ 500"
  shows "distance x1 y1 x2 y2 = Inr (the_distance x1 y1 x2 y2)
    \<and> 0 \<le> the_distance x1 y1 x2 y2 \<and> the_distance x1 y1 x2 y2 \<le> 2 ^ 505"
proof -
  define n where "n = (x2 - x1) ^ 2 + (y2 - y1) ^ 2"
  define f where "f = nearest_double (of_int n)"
  have n0: "0 \<le> n"
    by (simp add: n_def)
  have "n \<le> 2 ^ 1002 + 2 ^ 1002"
    unfolding n_def using square_bound [OF assms(1,3)] square_bound [OF assms(2,4)]
    by (rule add_mono)
  then have "n \<le> 2 ^ 1003"
    by simp
  then have "real_of_int n \<le> real_of_int (2 ^ 1003)"
    by (simp only: of_int_le_iff)
  then have n1: "real_of_int n \<le> 2 ^ 1003"
    by simp
  have r0: "0 \<le> real_of_int n"
    using n0 by simp
  have "2 * \<bar>real_of_int n\<bar> + 1 < 2 ^ 1024"
    using n1 r0 by simp
  then have conv: "float_of_int n = Inr f"
    by (simp add: float_of_int_def f_def double_of_bounded)
  have f0: "0 \<le> f"
    unfolding f_def using r0 by (rule nearest_double_nonneg)
  have "\<bar>f\<bar> \<le> 2 * \<bar>real_of_int n\<bar> + 1"
    unfolding f_def by (rule nearest_double_abs_le)
  then have "f \<le> (2 ^ 503)\<^sup>2"
    using n1 r0 by simp
  then have s1: "sqrt f \<le> 2 ^ 503"
    by (intro real_le_lsqrt) simp_all
  have s0: "0 \<le> sqrt f"
    using f0 by simp
  have d: "distance x1 y1 x2 y2 = Inr (nearest_double (sqrt f))"
    by (simp add: distance_def n_def [symmetric] conv)
  have "\<bar>nearest_double (sqrt f)\<bar> \<le> 2 * \<bar>sqrt f\<bar> + 1"
    by (rule nearest_double_abs_le)
  then have "nearest_double (sqrt f) \<le> 2 ^ 505"
    using s0 s1 by simp
  moreover have "0 \<le> nearest_double (sqrt f)"
    using s0 by (rule nearest_double_nonneg)
  ultimately show ?thesis
    by (simp add: the_distance_def d)
qed

lemma travel_time_in_range:
  assumes "0 \<le> dst" and "dst \<le> 2 ^ 505" and "\<bar>speed\<bar> \<le> 2 ^ 1000"
  shows "\<exists>t. travel_time dst speed mode = Inr t"
proof -
  define m :: real where "m = (if mode = ''DRIFT'' then 250 else if mode = ''BURN'' then 25 / 2 else 25)"
  define p where "p = nearest_double (dst * m)"
  define s where "s = nearest_double (of_int (max speed 1))"
  define q where "q = nearest_double (p / s)"
  have m: "0 \<le> m" "m \<le> 250"
    by (simp_all add: m_def)
  have "dst * m \<le> 2 ^ 505 * 250"
    using assms(1,2) m by (intro mult_mono) simp_all
  then have dm: "\<bar>dst * m\<bar> \<le> 2 ^ 513"
    using assms(1) m(1) by simp
  then have product: "double_of (dst * m) = Inr p"
    unfolding p_def by (intro double_of_bounded) simp
  have "\<bar>p\<bar> \<le> 2 * \<bar>dst * m\<bar> + 1"
    unfolding p_def by (rule nearest_double_abs_le)
  then have p: "\<bar>p\<bar> \<le> 2 ^ 515"
    using dm by simp
  have "max speed 1 \<le> 2 ^ 1000"
    using assms(3) by simp
  then have "real_of_int (max speed 1) \<le> real_of_int (2 ^ 1000)"
    by (simp only: of_int_le_iff)
  then have ms1: "real_of_int (max speed 1) \<le> 2 ^ 1000"
    by simp
  have "real_of_int 1 \<le> real_of_int (max speed 1)"
    by (simp only: of_int_le_iff)
  then have ms0: "1 \<le> real_of_int (max speed 1)"
    by simp
  have "2 * \<bar>real_of_int (max speed 1)\<bar> + 1 < 2 ^ 1024"
    using ms0 ms1 by simp
  then have divisor: "float_of_int (max speed 1) = Inr s"
    by (simp add: float_of_int_def s_def double_of_bounded)
  have "real_of_int (max speed 1) / 2 \<le> s"
    unfolding s_def using ms0 by (rule nearest_double_ge_half)
  then have s: "1 / 2 \<le> s"
    using ms0 by simp
  have "\<bar>p / s\<bar> = \<bar>p\<bar> / s"
    using s by simp
  also have "\<dots> \<le> \<bar>p\<bar> / (1 / 2)"
    using s by (intro divide_left_mono) simp_all
  finally have ps: "\<bar>p / s\<bar> \<le> 2 ^ 516"
    using p by simp
  then have ratio: "double_of (p / s) = Inr q"
    unfolding q_def by (intro double_of_bounded) simp
  have "\<bar>q\<bar> \<le> 2 * \<bar>p / s\<bar> + 1"
    unfolding q_def by (rule nearest_double_abs_le)
  then have "\<bar>q\<bar> \<le> 2 ^ 518"
    using ps by simp
  then have "\<bar>15 + q\<bar> \<le> 2 ^ 519"
    by simp
  then have seconds: "double_of (15 + q) = Inr (nearest_double (15 + q))"
    by (intro double_of_bounded) simp
  show ?thesis
    unfolding travel_time_def m_def [symmetric] Let_def
    by (simp add: product divisor ratio seconds)
qed

lemma distance_40: "distance 0 0 40 0 = Inr 40" "distance 40 0 80 0 = Inr 40"
proof -
  have "nearest_double (of_int 40) = of_int 40"
    by (rule nearest_double_small_int) simp
  then show "distance 0 0 40 0 = Inr 40" "distance 40 0 80 0 = Inr 40"
    using float_of_int_small [of 1600] by (simp_all add: distance_def)
qed

lemma distance_80: "distance 0 0 80 0 = Inr 80"
proof -
  have "nearest_double (of_int 80) = of_int 80"
    by (rule nearest_double_small_int) simp
  then show ?thesis
    using float_of_int_small [of 6400] by (simp add: distance_def)
qed

lemma double_of_third: "double_of (100 / 3) = Inr (4691249611844267 / 2 ^ 47)"
proof -
  have "py_round (100 / 3 / two_to (5 - 52)) = 4691249611844267"
    by (rule py_round_evalI) (simp add: two_to_def)
  then have "nearest_double (100 / 3) = of_int 4691249611844267 * two_to (5 - 52)"
    by (intro nearest_double_evalI) (simp_all add: two_to_def)
  then show ?thesis
    by (simp add: double_of_def two_to_def)
qed

lemma double_of_seconds:
  "double_of (15 + 4691249611844267 / 2 ^ 47) = Inr (6802311937174187 / 2 ^ 47)"
proof -
  have "(6802311937174187 / 2 ^ 47) / two_to (5 - 52) = real_of_int 6802311937174187"
    by (simp add: two_to_def)
  then have "py_round ((6802311937174187 / 2 ^ 47) / two_to (5 - 52)) = 6802311937174187"
    by (simp only: py_round_of_int)
  then have "nearest_double (6802311937174187 / 2 ^ 47)
      = of_int 6802311937174187 * two_to (5 - 52)"
    by (intro nearest_double_evalI) (simp_all add: two_to_def)
  moreover have "(15::real) + 4691249611844267 / 2 ^ 47 = 6802311937174187 / 2 ^ 47"
    by simp
  ultimately show ?thesis
    by (simp add: double_of_def two_to_def)
qed

lemma travel_time_40: "travel_time 40 30 ''CRUISE'' = Inr 48"
proof -
  have a: "double_of (40 * 25) = Inr 1000"
    using double_of_small_int [of 1000] by simp
  have b: "float_of_int (max 30 1) = Inr 30"
    using float_of_int_small [of 30] by simp
  have c: "double_of (1000 / 30) = Inr (4691249611844267 / 2 ^ 47)"
    using double_of_third by simp
  have d: "py_round (6802311937174187 / 2 ^ 47) = 48"
    by (rule py_round_evalI) simp
  show ?thesis
    unfolding travel_time_def Let_def
    by (simp only: a b c d double_of_seconds sum.case list.inject char.inject simp_thms if_False)
qed

subsection \<open>Legs within the range of the doubles\<close>

lemma in_rangeD:
  assumes "in_range coords" and "coords k = Some (x, y)"
  shows "\<bar>x\<bar> \<le> 2 ^ 500" and "\<bar>y\<bar> \<le> 2 ^ 500"
proof -
  have "(x, y) \<in> ran coords"
    using assms(2) by (auto simp: ran_def)
  then show "\<bar>x\<bar> \<le> 2 ^ 500" and "\<bar>y\<bar> \<le> 2 ^ 500"
    using assms(1) by (auto simp: in_range_def)
qed

lemma plan_segment_in_range:
  assumes "\<bar>x1\<bar> \<le> 2 ^ 500" and "\<bar>y1\<bar> \<le> 2 ^ 500" and "\<bar>x2\<bar> \<le> 2 ^ 500" and "\<bar>y2\<bar> \<le> 2 ^ 500"
    and "\<bar>speed\<bar> \<le> 2 ^ 1000"
  shows "\<exists>s. plan_segment x1 y1 x2 y2 a b speed mode = Inr s"
proof -
  note d = distance_in_range [OF assms(1,2,3,4)]
  obtain t where "travel_time (the_distance x1 y1 x2 y2) speed mode = Inr t"
    using travel_time_in_range [of "the_distance x1 y1 x2 y2" speed mode] d assms(5) by blast
  then show ?thesis
    using d by (simp add: plan_segment_def)
qed

subsection \<open>The scan for the next stop\<close>

lemma consider_wp_nearer:
  assumes "in_range coords" and "\<bar>cx\<bar> \<le> 2 ^ 500" and "\<bar>cy\<bar> \<le> 2 ^ 500"
    and "\<bar>dest_x\<bar> \<le> 2 ^ 500" and "\<bar>dest_y\<bar> \<le> 2 ^ 500"
  shows "consider_wp coords visited cx cy dest_x dest_y mode fuel_capacity best w =
     Inr (nearer_stop coords visited cx cy dest_x dest_y mode fuel_capacity best w)"
proof (cases "coords w")
  case None
  then show ?thesis
    by (simp add: consider_wp_def nearer_stop_def within_tank_def)
next
  case (Some xy)
  obtain wx wy where xy: "xy = (wx, wy)"
    by (cases xy)
  note w = in_rangeD [OF assms(1) Some [unfolded xy]]
  have there: "distance cx cy wx wy = Inr (the_distance cx cy wx wy)"
    using distance_in_range [OF assms(2,3) w] by simp
  have onward: "distance wx wy dest_x dest_y = Inr (the_distance wx wy dest_x dest_y)"
    using distance_in_range [OF w assms(4,5)] by simp
  show ?thesis
    by (simp add: consider_wp_def nearer_stop_def within_tank_def remaining_to_def Some xy there
        onward not_le)
qed

lemma scan_as_fold:
  assumes "in_range coords" and "\<bar>cx\<bar> \<le> 2 ^ 500" and "\<bar>cy\<bar> \<le> 2 ^ 500"
    and "\<bar>dest_x\<bar> \<le> 2 ^ 500" and "\<bar>dest_y\<bar> \<le> 2 ^ 500"
  shows "scan_fuel_waypoints coords visited cx cy dest_x dest_y mode fuel_capacity best ws =
     Inr (foldl (nearer_stop coords visited cx cy dest_x dest_y mode fuel_capacity) best ws)"
  by (induction ws arbitrary: best) (simp_all add: consider_wp_nearer [OF assms])

lemma scan_invariant:
  assumes "foldl (nearer_stop coords visited cx cy dest_x dest_y mode fuel_capacity) (b0, d0) ws
           = (b, d)"
  shows "d \<le> d0
    \<and> (\<forall>w \<in> set ws. w \<notin> visited \<and> within_tank coords mode fuel_capacity cx cy w
          \<longrightarrow> d \<le> remaining_to coords dest_x dest_y w)
    \<and> ((b = b0 \<and> d = d0)
        \<or> (\<exists>w \<in> set ws. b = Some w \<and> w \<notin> visited \<and> within_tank coords mode fuel_capacity cx cy w
              \<and> remaining_to coords dest_x dest_y w = d \<and> d < d0))"
  using assms
proof (induction ws arbitrary: b0 d0)
  case Nil
  then show ?case by simp
next
  case (Cons w ws)
  obtain b1 d1 where step:
    "nearer_stop coords visited cx cy dest_x dest_y mode fuel_capacity (b0, d0) w = (b1, d1)"
    by (cases "nearer_stop coords visited cx cy dest_x dest_y mode fuel_capacity (b0, d0) w") auto
  have rest: "foldl (nearer_stop coords visited cx cy dest_x dest_y mode fuel_capacity) (b1, d1) ws
      = (b, d)"
    using Cons.prems step by simp
  note ih = Cons.IH [OF rest]
  have first: "d1 \<le> d0"
    and covers: "w \<notin> visited \<and> within_tank coords mode fuel_capacity cx cy w
      \<longrightarrow> d1 \<le> remaining_to coords dest_x dest_y w"
    and origin: "(b1 = b0 \<and> d1 = d0)
      \<or> (b1 = Some w \<and> w \<notin> visited \<and> within_tank coords mode fuel_capacity cx cy w
          \<and> remaining_to coords dest_x dest_y w = d1 \<and> d1 < d0)"
    using step by (auto simp: nearer_stop_def split: if_splits)
  show ?case
  proof (intro conjI ballI impI)
    show "d \<le> d0"
      using ih first by linarith
  next
    fix u
    assume "u \<in> set (w # ws)"
      and "u \<notin> visited \<and> within_tank coords mode fuel_capacity cx cy u"
    then show "d \<le> remaining_to coords dest_x dest_y u"
      using ih covers by (cases "u = w") (auto intro: order_trans)
  next
    from ih have "(b = b1 \<and> d = d1)
        \<or> (\<exists>u \<in> set ws. b = Some u \<and> u \<notin> visited \<and> within_tank coords mode fuel_capacity cx cy u
              \<and> remaining_to coords dest_x dest_y u = d \<and> d < d1)"
      by blast
    then show "(b = b0 \<and> d = d0)
        \<or> (\<exists>u \<in> set (w # ws). b = Some u \<and> u \<notin> visited
              \<and> within_tank coords mode fuel_capacity cx cy u
              \<and> remaining_to coords dest_x dest_y u = d \<and> d < d0)"
      using origin first by (elim disjE) (auto intro: less_le_trans)
  qed
qed

lemma scan_result:
  fixes coords visited cx cy dest_x dest_y mode fuel_capacity ws
  defines "best \<equiv> fst (foldl (nearer_stop coords visited cx cy dest_x dest_y mode fuel_capacity)
                          (None, the_distance cx cy dest_x dest_y) ws)"
  shows "(best = None \<longleftrightarrow>
            (\<forall>w \<in> set ws. \<not> forward_stop coords visited mode fuel_capacity cx cy dest_x dest_y w))"
    and "best = Some w \<Longrightarrow>
            w \<in> set ws \<and> forward_stop coords visited mode fuel_capacity cx cy dest_x dest_y w
            \<and> (\<forall>u \<in> set ws. forward_stop coords visited mode fuel_capacity cx cy dest_x dest_y u
                  \<longrightarrow> remaining_to coords dest_x dest_y w \<le> remaining_to coords dest_x dest_y u)"
proof -
  obtain b d where fold:
    "foldl (nearer_stop coords visited cx cy dest_x dest_y mode fuel_capacity)
       (None, the_distance cx cy dest_x dest_y) ws = (b, d)"
    by (cases "foldl (nearer_stop coords visited cx cy dest_x dest_y mode fuel_capacity)
       (None, the_distance cx cy dest_x dest_y) ws") auto
  have best: "best = b"
    by (simp add: best_def fold)
  note inv = scan_invariant [OF fold]
  show "best = None \<longleftrightarrow>
      (\<forall>w \<in> set ws. \<not> forward_stop coords visited mode fuel_capacity cx cy dest_x dest_y w)"
    unfolding best using inv by (fastforce simp: forward_stop_def)
  show "w \<in> set ws \<and> forward_stop coords visited mode fuel_capacity cx cy dest_x dest_y w
      \<and> (\<forall>u \<in> set ws. forward_stop coords visited mode fuel_capacity cx cy dest_x dest_y u
            \<longrightarrow> remaining_to coords dest_x dest_y w \<le> remaining_to coords dest_x dest_y u)"
    if "best = Some w"
    using that inv unfolding best by (fastforce simp: forward_stop_def)
qed

subsection \<open>One iteration of the loop\<close>

lemma forward_stop_coords:
  "forward_stop coords visited mode fuel_capacity cx cy dest_x dest_y w \<Longrightarrow>
   \<exists>wx wy. coords w = Some (wx, wy)"
  by (auto simp: forward_stop_def within_tank_def split: option.splits)

lemma hop_loop_zero:
  "hop_loop 0 coords fws destination dest_x dest_y fuel_capacity speed mode mh current segs visited
     = Inr (infeasible (''Exceeded max hops ('' @ py_str_nat mh @ '') ''
              @ [CHR 0xE2, CHR 0x80, CHR 0x94] @ '' route infeasible''))"
  by simp

lemma hop_loop_direct:
  assumes "coords current = Some (cx, cy)"
    and "distance cx cy dest_x dest_y = Inr d" and "fuel_cost d mode \<le> fuel_capacity"
    and "plan_segment cx cy dest_x dest_y current destination speed mode = Inr s"
  shows "hop_loop (Suc n) coords fws destination dest_x dest_y fuel_capacity speed mode mh
           current segs visited = Inr (arrival (segs @ [s]))"
  using assms by (simp add: Let_def arrival_def REFUEL_STOP_OVERHEAD_def)

lemma hop_loop_stuck:
  assumes "coords current = Some (cx, cy)"
    and "distance cx cy dest_x dest_y = Inr d" and "fuel_capacity < fuel_cost d mode"
    and "scan_fuel_waypoints coords visited cx cy dest_x dest_y mode fuel_capacity (None, d) fws
         = Inr best"
    and "fst best = None"
  shows "hop_loop (Suc n) coords fws destination dest_x dest_y fuel_capacity speed mode mh
           current segs visited =
     Inr (infeasible (''No reachable fuel waypoint makes progress from '' @ current
                       @ '' toward '' @ destination))"
  using assms by simp

lemma hop_loop_hop:
  assumes "coords current = Some (cx, cy)"
    and "distance cx cy dest_x dest_y = Inr d" and "fuel_capacity < fuel_cost d mode"
    and "scan_fuel_waypoints coords visited cx cy dest_x dest_y mode fuel_capacity (None, d) fws
         = Inr best"
    and "fst best = Some w" and "coords w = Some (wx, wy)"
    and "plan_segment cx cy wx wy current w speed mode = Inr s"
  shows "hop_loop (Suc n) coords fws destination dest_x dest_y fuel_capacity speed mode mh
           current segs visited =
     hop_loop n coords fws destination dest_x dest_y fuel_capacity speed mode mh w
       (segs @ [s]) (insert w visited)"
  using assms by simp

lemma hop_loop_raises:
  assumes "coords current = Some (cx, cy)" and "distance cx cy dest_x dest_y = Inl e"
  shows "hop_loop (Suc n) coords fws destination dest_x dest_y fuel_capacity speed mode mh
           current segs visited = Inl e"
  using assms by simp

declare hop_loop.simps [simp del]

lemma hop_loop_segment_raises:
  assumes "coords current = Some (cx, cy)"
    and "distance cx cy dest_x dest_y = Inr d" and "fuel_cost d mode \<le> fuel_capacity"
    and "plan_segment cx cy dest_x dest_y current destination speed mode = Inl e"
  shows "hop_loop (Suc n) coords fws destination dest_x dest_y fuel_capacity speed mode mh
           current segs visited = Inl e"
  using assms by (simp add: hop_loop.simps)

subsection \<open>The greedy run\<close>

lemma greedy_run_direct:
  assumes "coords current = Some (cx, cy)"
    and "fuel_cost (the_distance cx cy dest_x dest_y) mode \<le> fuel_capacity"
    and "plan_segment cx cy dest_x dest_y current destination speed mode = Inr s"
  shows "greedy_run (Suc n) coords F destination dest_x dest_y fuel_capacity speed mode
           current segs visited p \<longleftrightarrow> p = arrival (segs @ [s])"
  using assms by simp

lemma greedy_run_stuck:
  assumes "coords current = Some (cx, cy)"
    and "fuel_capacity < fuel_cost (the_distance cx cy dest_x dest_y) mode"
    and "\<forall>w \<in> F. \<not> forward_stop coords visited mode fuel_capacity cx cy dest_x dest_y w"
  shows "greedy_run (Suc n) coords F destination dest_x dest_y fuel_capacity speed mode
           current segs visited p \<longleftrightarrow> gives_up p"
  using assms by simp

lemma greedy_run_hop:
  assumes "coords current = Some (cx, cy)"
    and "fuel_capacity < fuel_cost (the_distance cx cy dest_x dest_y) mode"
    and "\<exists>w \<in> F. forward_stop coords visited mode fuel_capacity cx cy dest_x dest_y w"
  shows "greedy_run (Suc n) coords F destination dest_x dest_y fuel_capacity speed mode
           current segs visited p \<longleftrightarrow>
     (\<exists>w wx wy s. w \<in> F
        \<and> forward_stop coords visited mode fuel_capacity cx cy dest_x dest_y w
        \<and> (\<forall>u \<in> F. forward_stop coords visited mode fuel_capacity cx cy dest_x dest_y u
              \<longrightarrow> remaining_to coords dest_x dest_y w \<le> remaining_to coords dest_x dest_y u)
        \<and> coords w = Some (wx, wy)
        \<and> plan_segment cx cy wx wy current w speed mode = Inr s
        \<and> greedy_run n coords F destination dest_x dest_y fuel_capacity speed mode w
             (segs @ [s]) (insert w visited) p)"
proof -
  have some: "(\<forall>w \<in> F. \<not> forward_stop coords visited mode fuel_capacity cx cy dest_x dest_y w)
      = False"
    using assms(3) by blast
  have onward: "(case coords w of
        None \<Rightarrow> False
      | Some (wx, wy) \<Rightarrow>
          (case plan_segment cx cy wx wy current w speed mode of
             Inl e \<Rightarrow> False
           | Inr s \<Rightarrow>
               greedy_run n coords F destination dest_x dest_y fuel_capacity speed mode w
                 (segs @ [s]) (insert w visited) p))
      \<longleftrightarrow> (\<exists>wx wy s. coords w = Some (wx, wy)
            \<and> plan_segment cx cy wx wy current w speed mode = Inr s
            \<and> greedy_run n coords F destination dest_x dest_y fuel_capacity speed mode w
                 (segs @ [s]) (insert w visited) p)" for w
  proof (cases "coords w")
    case None
    then show ?thesis
      by simp
  next
    case (Some xy)
    obtain wx wy where xy: "xy = (wx, wy)"
      by (cases xy)
    show ?thesis
      by (cases "plan_segment cx cy wx wy current w speed mode") (simp_all add: Some xy)
  qed
  have "greedy_run (Suc n) coords F destination dest_x dest_y fuel_capacity speed mode
           current segs visited p \<longleftrightarrow>
     (\<exists>w \<in> F.
        forward_stop coords visited mode fuel_capacity cx cy dest_x dest_y w
        \<and> (\<forall>u \<in> F. forward_stop coords visited mode fuel_capacity cx cy dest_x dest_y u
              \<longrightarrow> remaining_to coords dest_x dest_y w \<le> remaining_to coords dest_x dest_y u)
        \<and> (case coords w of
              None \<Rightarrow> False
            | Some (wx, wy) \<Rightarrow>
                (case plan_segment cx cy wx wy current w speed mode of
                   Inl e \<Rightarrow> False
                 | Inr s \<Rightarrow>
                     greedy_run n coords F destination dest_x dest_y fuel_capacity speed mode w
                       (segs @ [s]) (insert w visited) p)))"
    using assms(1,2) by (simp add: some not_le [symmetric])
  then show ?thesis
    unfolding onward by blast
qed

lemma greedy_run_unknown:
  "coords current = None \<Longrightarrow>
   \<not> greedy_run (Suc n) coords F destination dest_x dest_y fuel_capacity speed mode current segs
       visited p"
  by simp

lemma greedy_run_no_segment:
  assumes "coords current = Some (cx, cy)"
    and "fuel_cost (the_distance cx cy dest_x dest_y) mode \<le> fuel_capacity"
    and "plan_segment cx cy dest_x dest_y current destination speed mode = Inl e"
  shows "\<not> greedy_run (Suc n) coords F destination dest_x dest_y fuel_capacity speed mode
           current segs visited p"
  using assms by simp

lemma greedy_run_zero:
  "greedy_run 0 coords F destination dest_x dest_y fuel_capacity speed mode current segs visited p
     \<longleftrightarrow> gives_up p"
  by simp

declare greedy_run.simps [simp del]

lemma gives_up_infeasible: "why \<noteq> [] \<Longrightarrow> gives_up (infeasible why)"
  by (simp add: gives_up_def infeasible_def)

lemma hop_loop_greedy:
  assumes "in_range coords" and "\<bar>speed\<bar> \<le> 2 ^ 1000"
    and "\<bar>dest_x\<bar> \<le> 2 ^ 500" and "\<bar>dest_y\<bar> \<le> 2 ^ 500"
    and "coords current \<noteq> None"
  shows "\<exists>p. hop_loop n coords fws destination dest_x dest_y fuel_capacity speed mode mh current
               segs visited = Inr p
           \<and> greedy_run n coords (set fws) destination dest_x dest_y fuel_capacity speed mode
               current segs visited p"
  using assms(5)
proof (induction n arbitrary: current segs visited)
  case 0
  show ?case
    by (simp add: hop_loop_zero greedy_run_zero gives_up_infeasible)
next
  case (Suc n)
  then obtain cx cy where c: "coords current = Some (cx, cy)"
    by auto
  note here = in_rangeD [OF assms(1) c]
  define d where "d = the_distance cx cy dest_x dest_y"
  have dist: "distance cx cy dest_x dest_y = Inr d"
    using distance_in_range [OF here assms(3,4)] by (simp add: d_def)
  show ?case
  proof (cases "fuel_cost d mode \<le> fuel_capacity")
    case True
    obtain s where s: "plan_segment cx cy dest_x dest_y current destination speed mode = Inr s"
      using plan_segment_in_range [OF here assms(3,4,2)] by blast
    have "hop_loop (Suc n) coords fws destination dest_x dest_y fuel_capacity speed mode mh
        current segs visited = Inr (arrival (segs @ [s]))"
      by (rule hop_loop_direct [where coords = coords and current = current, OF c dist True s])
    moreover have "greedy_run (Suc n) coords (set fws) destination dest_x dest_y fuel_capacity
        speed mode current segs visited (arrival (segs @ [s]))"
      using greedy_run_direct [where coords = coords and current = current,
          OF c True [unfolded d_def] s] by simp
    ultimately show ?thesis
      by simp
  next
    case False
    then have far: "fuel_capacity < fuel_cost d mode"
      by simp
    define best where "best = foldl (nearer_stop coords visited cx cy dest_x dest_y mode
        fuel_capacity) (None, d) fws"
    have scan: "scan_fuel_waypoints coords visited cx cy dest_x dest_y mode fuel_capacity
        (None, d) fws = Inr best"
      unfolding best_def by (rule scan_as_fold [OF assms(1) here assms(3,4)])
    show ?thesis
    proof (cases "\<exists>w \<in> set fws. forward_stop coords visited mode fuel_capacity cx cy dest_x dest_y w")
      case False
      then have none: "\<forall>w \<in> set fws.
          \<not> forward_stop coords visited mode fuel_capacity cx cy dest_x dest_y w"
        by blast
      then have "fst best = None"
        using scan_result(1) [of coords visited cx cy dest_x dest_y mode fuel_capacity fws]
        by (simp add: best_def d_def)
      then have "hop_loop (Suc n) coords fws destination dest_x dest_y fuel_capacity speed mode
          mh current segs visited =
          Inr (infeasible (''No reachable fuel waypoint makes progress from '' @ current
                            @ '' toward '' @ destination))"
        by (rule hop_loop_stuck [where coords = coords and current = current,
              OF c dist far scan])
      moreover have "greedy_run (Suc n) coords (set fws) destination dest_x dest_y fuel_capacity
          speed mode current segs visited
          (infeasible (''No reachable fuel waypoint makes progress from '' @ current
                            @ '' toward '' @ destination))"
        using greedy_run_stuck [where coords = coords and current = current,
            OF c far [unfolded d_def] none]
        by (simp add: gives_up_infeasible)
      ultimately show ?thesis
        by simp
    next
      case True
      then have "fst best \<noteq> None"
        using scan_result(1) [of coords visited cx cy dest_x dest_y mode fuel_capacity fws]
        by (simp add: best_def d_def)
      then obtain w where w: "fst best = Some w"
        by auto
      have props: "w \<in> set fws
          \<and> forward_stop coords visited mode fuel_capacity cx cy dest_x dest_y w
          \<and> (\<forall>u \<in> set fws.
                forward_stop coords visited mode fuel_capacity cx cy dest_x dest_y u
                \<longrightarrow> remaining_to coords dest_x dest_y w \<le> remaining_to coords dest_x dest_y u)"
        using scan_result(2) [of coords visited cx cy dest_x dest_y mode fuel_capacity fws w] w
        by (simp add: best_def d_def)
      obtain wx wy where cw: "coords w = Some (wx, wy)"
        using props forward_stop_coords by blast
      note there = in_rangeD [OF assms(1) cw]
      obtain s where s: "plan_segment cx cy wx wy current w speed mode = Inr s"
        using plan_segment_in_range [OF here there assms(2)] by blast
      have step: "hop_loop (Suc n) coords fws destination dest_x dest_y fuel_capacity speed mode
          mh current segs visited =
          hop_loop n coords fws destination dest_x dest_y fuel_capacity speed mode mh w
            (segs @ [s]) (insert w visited)"
        by (rule hop_loop_hop [where coords = coords and current = current,
              OF c dist far scan w cw s])
      obtain p where p: "hop_loop n coords fws destination dest_x dest_y fuel_capacity speed mode
            mh w (segs @ [s]) (insert w visited) = Inr p"
          "greedy_run n coords (set fws) destination dest_x dest_y fuel_capacity speed mode w
            (segs @ [s]) (insert w visited) p"
        using Suc.IH [of w "segs @ [s]" "insert w visited"] cw by auto
      have "greedy_run (Suc n) coords (set fws) destination dest_x dest_y fuel_capacity speed
          mode current segs visited p"
        unfolding greedy_run_hop [where coords = coords and current = current,
            OF c far [unfolded d_def] True]
        using props cw s p(2) by blast
      then show ?thesis
        using step p(1) by simp
    qed
  qed
qed

lemma greedy_run_shape:
  assumes "greedy_run n coords F destination dest_x dest_y fuel_capacity speed mode current segs
             visited p"
  shows "(feasible p \<longrightarrow>
            (\<exists>new. segments p = segs @ new \<and> new \<noteq> [] \<and> length new \<le> n)
            \<and> p = arrival (segments p))
         \<and> (\<not> feasible p \<longrightarrow> gives_up p)"
  using assms
proof (induction n arbitrary: current segs visited)
  case 0
  then show ?case
    by (simp add: greedy_run_zero gives_up_def)
next
  case (Suc n)
  show ?case
  proof (cases "coords current")
    case None
    then show ?thesis
      using Suc.prems greedy_run_unknown by blast
  next
    case (Some xy)
    then obtain cx cy where c: "coords current = Some (cx, cy)"
      by (cases xy) auto
    show ?thesis
    proof (cases "fuel_cost (the_distance cx cy dest_x dest_y) mode \<le> fuel_capacity")
      case True
      show ?thesis
      proof (cases "plan_segment cx cy dest_x dest_y current destination speed mode")
        case (Inl e)
        show ?thesis
          using Suc.prems
            greedy_run_no_segment [where coords = coords and current = current, OF c True Inl]
          by blast
      next
        case (Inr s)
        have "p = arrival (segs @ [s])"
          using Suc.prems
          unfolding greedy_run_direct [where coords = coords and current = current, OF c True Inr] .
        then show ?thesis
          by (simp add: arrival_def)
      qed
    next
      case False
      then have far: "fuel_capacity < fuel_cost (the_distance cx cy dest_x dest_y) mode"
        by simp
      show ?thesis
      proof (cases "\<exists>w \<in> F. forward_stop coords visited mode fuel_capacity cx cy dest_x dest_y w")
        case False
        then have none: "\<forall>w \<in> F.
            \<not> forward_stop coords visited mode fuel_capacity cx cy dest_x dest_y w"
          by blast
        have "gives_up p"
          using Suc.prems
          unfolding greedy_run_stuck [where coords = coords and current = current,
              OF c far none] .
        then show ?thesis
          by (simp add: gives_up_def)
      next
        case True
        obtain w s where "greedy_run n coords F destination dest_x dest_y fuel_capacity speed mode
            w (segs @ [s]) (insert w visited) p"
          using Suc.prems
          unfolding greedy_run_hop [where coords = coords and current = current, OF c far True]
          by blast
        from Suc.IH [OF this]
        have feas: "feasible p \<longrightarrow>
            (\<exists>new. segments p = (segs @ [s]) @ new \<and> new \<noteq> [] \<and> length new \<le> n)
            \<and> p = arrival (segments p)"
          and inf: "\<not> feasible p \<longrightarrow> gives_up p"
          by simp_all
        have "(\<exists>new. segments p = segs @ new \<and> new \<noteq> [] \<and> length new \<le> Suc n)
            \<and> p = arrival (segments p)" if f: "feasible p"
        proof -
          obtain new where new: "segments p = (segs @ [s]) @ new" "length new \<le> n"
            and arr: "p = arrival (segments p)"
            using feas f by blast
          have "segments p = segs @ (s # new) \<and> s # new \<noteq> [] \<and> length (s # new) \<le> Suc n"
            using new by simp
          then show ?thesis
            using arr by blast
        qed
        then show ?thesis
          using inf by blast
      qed
    qed
  qed
qed

subsection \<open>The route on the line\<close>

lemma fuel_line: "fuel_cost 40 ''CRUISE'' = 40" "fuel_cost 80 ''CRUISE'' = 80"
  by (simp_all add: fuel_cost_def)

lemma segment_line:
  "plan_segment 0 0 40 0 ''A'' ''B'' 30 ''CRUISE'' =
     Inr \<lparr>seg_origin = ''A'', seg_destination = ''B'', seg_distance = 40,
          seg_flight_mode = ''CRUISE'', seg_fuel_cost = 40, seg_travel_seconds = 48\<rparr>"
  "plan_segment 40 0 80 0 ''B'' ''C'' 30 ''CRUISE'' =
     Inr \<lparr>seg_origin = ''B'', seg_destination = ''C'', seg_distance = 40,
          seg_flight_mode = ''CRUISE'', seg_fuel_cost = 40, seg_travel_seconds = 48\<rparr>"
  by (simp_all add: plan_segment_def distance_40 travel_time_40 fuel_line)

lemma scan_line:
  "scan_fuel_waypoints line_coords {''A''} 0 0 80 0 ''CRUISE'' 50 (None, 80) [''B'']
     = Inr (Some ''B'', 40)"
  by (simp add: consider_wp_def line_coords_def distance_40 fuel_line)

lemma plan_multihop_line:
  "plan_multihop line_coords [''B''] ''A'' ''C'' 50 30 ''CRUISE'' = Inr line_plan"
proof -
  have c: "line_coords ''A'' = Some (0, 0)" "line_coords ''B'' = Some (40, 0)"
    "line_coords ''C'' = Some (80, 0)"
    by (simp_all add: line_coords_def)
  have last: "arrival
      [\<lparr>seg_origin = ''A'', seg_destination = ''B'', seg_distance = 40,
        seg_flight_mode = ''CRUISE'', seg_fuel_cost = 40, seg_travel_seconds = 48\<rparr>,
       \<lparr>seg_origin = ''B'', seg_destination = ''C'', seg_distance = 40,
        seg_flight_mode = ''CRUISE'', seg_fuel_cost = 40, seg_travel_seconds = 48\<rparr>] = line_plan"
    by (simp add: arrival_def line_plan_def)
  have second: "hop_loop (Suc 0) line_coords [''B''] ''C'' 80 0 50 30 ''CRUISE'' mh ''B''
      ([] @ [\<lparr>seg_origin = ''A'', seg_destination = ''B'', seg_distance = 40,
        seg_flight_mode = ''CRUISE'', seg_fuel_cost = 40, seg_travel_seconds = 48\<rparr>])
      (insert ''B'' {''A''}) = Inr line_plan" for mh
    using hop_loop_direct [where coords = line_coords and current = "''B''", OF c(2) distance_40(2) _
        segment_line(2)]
    by (simp add: fuel_line last)
  have "hop_loop (Suc (Suc 0)) line_coords [''B''] ''C'' 80 0 50 30 ''CRUISE'' mh ''A'' []
      {''A''} = Inr line_plan" for mh
    using hop_loop_hop [where coords = line_coords and current = "''A''" and w = "''B''"
        and best = "(Some ''B'', 40)", OF c(1) distance_80 _ scan_line _ c(2) segment_line(1)]
      second
    by (simp add: fuel_line)
  then show ?thesis
    by (simp add: plan_multihop_def c)
qed

lemma in_range_line: "in_range line_coords"
  by (auto simp: in_range_def line_coords_def ran_def split: if_splits)

subsection \<open>Legs beyond the range of the doubles\<close>

lemma distance_far: "distance 0 0 (2 ^ 600) 0 = Inl OverflowError"
proof -
  have "(2::int) ^ 1025 \<le> (2 ^ 600 - 0)\<^sup>2 + (0 - 0)\<^sup>2"
    by simp
  then show ?thesis
    unfolding distance_def by (simp only: float_of_int_overflow sum.case)
qed

lemma distance_5: "distance 0 0 3 4 = Inr 5"
proof -
  have "nearest_double (of_int 5) = of_int 5"
    by (rule nearest_double_small_int) simp
  moreover have "sqrt 25 = 5"
    using real_sqrt_abs [of 5] by simp
  ultimately show ?thesis
    using float_of_int_small [of 25] by (simp add: distance_def)
qed

lemma travel_time_fast: "travel_time 5 (2 ^ 1100) ''CRUISE'' = Inl OverflowError"
proof -
  have a: "double_of (5 * 25) = Inr 125"
    using double_of_small_int [of 125] by simp
  have "(2::int) ^ 1025 \<le> max (2 ^ 1100) 1"
    by simp
  then have b: "float_of_int (max (2 ^ 1100) 1) = Inl OverflowError"
    by (rule float_of_int_overflow)
  show ?thesis
    unfolding travel_time_def Let_def
    by (simp only: a b sum.case list.inject char.inject simp_thms if_False)
qed

subsection \<open>The planner\<close>

lemma plan_multihop_loop:
  assumes "origin \<noteq> destination" and "coords origin \<noteq> None"
    and "coords destination = Some (dest_x, dest_y)"
  shows "plan_multihop coords fws origin destination fuel_capacity speed mode =
     hop_loop (length fws + 1) coords fws destination dest_x dest_y fuel_capacity speed mode
       (length fws + 1) origin [] {origin}"
  using assms by (auto simp: plan_multihop_def Let_def)

text \<open>
  C3, as amended. For \<open>origin = destination\<close> \<open>plan_multihop\<close> returns the feasible plan
  without segments, fuel and time. For distinct origin and destination of which one has
  no coordinates it returns an infeasible plan. For distinct origin and destination with known
  coordinates, every coordinate of the map within \<open>2 ^ 500\<close> of zero and the speed within
  \<open>2 ^ 1000\<close> of zero, \<open>plan_multihop\<close> returns a plan, and the plan is the greedy run of
  \<open>|fuel_waypoints| + 1\<close> iterations from the origin. An iteration standing where one
  tank reaches the destination ends the run with the feasible plan over the segments so
  far and the segment to the destination. An iteration standing elsewhere, with no
  forward stop among the fuel waypoints (unvisited, within one tank, strictly nearer to
  the destination than the current position), ends it with an infeasible plan. Any other
  iteration appends the segment to a forward stop of least remaining distance and goes on
  from there. The plan has at most \<open>|fuel_waypoints| + 1\<close> segments. A feasible plan has
  at least one; its total fuel is the sum of the segments' fuel and its total time is the
  sum of their times plus 30 s for each intermediate stop. An infeasible plan has no
  segments, zero totals and a reason. On the line A (0,0), B (40,0), C (80,0) with fuel
  waypoint B, capacity 50, speed 30 and CRUISE, the plan from A to C is feasible with two
  segments of 40 units, 40 fuel and 48 s each, 48 s being the travel time of 40 units at
  speed 30, total fuel 80 and total time \<open>48 + 48 + 30\<close>.
\<close>

theorem plan_multihop_greedy:
  "plan_multihop coords fws origin origin fuel_capacity speed mode
     = Inr \<lparr>segments = [], total_fuel = 0, total_seconds = 0, feasible = True, reason = []\<rparr>
   \<and> (origin \<noteq> destination \<and> (coords origin = None \<or> coords destination = None) \<longrightarrow>
      (\<exists>p. plan_multihop coords fws origin destination fuel_capacity speed mode = Inr p
         \<and> gives_up p))
   \<and> (origin \<noteq> destination \<and> coords origin \<noteq> None
        \<and> coords destination = Some (dest_x, dest_y)
        \<and> in_range coords \<and> \<bar>speed\<bar> \<le> 2 ^ 1000 \<longrightarrow>
      (\<exists>p. plan_multihop coords fws origin destination fuel_capacity speed mode = Inr p
         \<and> greedy_run (length fws + 1) coords (set fws) destination dest_x dest_y fuel_capacity
             speed mode origin [] {origin} p
         \<and> length (segments p) \<le> length fws + 1
         \<and> (feasible p \<longrightarrow>
              segments p \<noteq> []
              \<and> total_fuel p = sum_list (map seg_fuel_cost (segments p))
              \<and> total_seconds p = sum_list (map seg_travel_seconds (segments p))
                  + 30 * (int (length (segments p)) - 1))
         \<and> (\<not> feasible p \<longrightarrow>
              segments p = [] \<and> total_fuel p = 0 \<and> total_seconds p = 0 \<and> reason p \<noteq> [])))
   \<and> plan_multihop line_coords [''B''] ''A'' ''C'' 50 30 ''CRUISE'' = Inr line_plan
   \<and> travel_time 40 30 ''CRUISE'' = Inr 48"
proof (intro conjI impI)
  show "plan_multihop coords fws origin origin fuel_capacity speed mode
      = Inr \<lparr>segments = [], total_fuel = 0, total_seconds = 0, feasible = True, reason = []\<rparr>"
    by (simp add: plan_multihop_def)
next
  show "plan_multihop line_coords [''B''] ''A'' ''C'' 50 30 ''CRUISE'' = Inr line_plan"
    by (rule plan_multihop_line)
next
  show "travel_time 40 30 ''CRUISE'' = Inr 48"
    by (rule travel_time_40)
next
  assume "origin \<noteq> destination \<and> (coords origin = None \<or> coords destination = None)"
  then have "plan_multihop coords fws origin destination fuel_capacity speed mode
      = Inr (infeasible (''Unknown coordinates for '' @ origin @ '' or '' @ destination))"
    by (simp add: plan_multihop_def)
  then show "\<exists>p. plan_multihop coords fws origin destination fuel_capacity speed mode = Inr p
      \<and> gives_up p"
    by (simp add: gives_up_infeasible)
next
  assume a: "origin \<noteq> destination \<and> coords origin \<noteq> None
      \<and> coords destination = Some (dest_x, dest_y) \<and> in_range coords \<and> \<bar>speed\<bar> \<le> 2 ^ 1000"
  then have ne: "origin \<noteq> destination" and known: "coords origin \<noteq> None"
    and d: "coords destination = Some (dest_x, dest_y)" and r: "in_range coords"
    and sp: "\<bar>speed\<bar> \<le> 2 ^ 1000"
    by simp_all
  note dest = in_rangeD [OF r d]
  obtain p where run: "hop_loop (length fws + 1) coords fws destination dest_x dest_y
        fuel_capacity speed mode (length fws + 1) origin [] {origin} = Inr p"
    and greedy: "greedy_run (length fws + 1) coords (set fws) destination dest_x dest_y
        fuel_capacity speed mode origin [] {origin} p"
    using hop_loop_greedy [OF r sp dest known] by blast
  note shape = greedy_run_shape [OF greedy]
  have plan: "plan_multihop coords fws origin destination fuel_capacity speed mode = Inr p"
    using run by (simp add: plan_multihop_loop [where coords = coords and destination = destination,
          OF ne known d])
  have len: "length (segments p) \<le> length fws + 1"
    using shape by (cases "feasible p") (auto simp: gives_up_def)
  have feas: "feasible p \<longrightarrow>
      segments p \<noteq> []
      \<and> total_fuel p = sum_list (map seg_fuel_cost (segments p))
      \<and> total_seconds p = sum_list (map seg_travel_seconds (segments p))
          + 30 * (int (length (segments p)) - 1)"
  proof
    assume f: "feasible p"
    then have "p = arrival (segments p)" and "segments p \<noteq> []"
      using shape by auto
    then show "segments p \<noteq> []
      \<and> total_fuel p = sum_list (map seg_fuel_cost (segments p))
      \<and> total_seconds p = sum_list (map seg_travel_seconds (segments p))
          + 30 * (int (length (segments p)) - 1)"
      by (metis RoutePlan.select_convs(2,3) arrival_def)
  qed
  have inf: "\<not> feasible p \<longrightarrow>
      segments p = [] \<and> total_fuel p = 0 \<and> total_seconds p = 0 \<and> reason p \<noteq> []"
    using shape by (simp add: gives_up_def)
  show "\<exists>p. plan_multihop coords fws origin destination fuel_capacity speed mode = Inr p
         \<and> greedy_run (length fws + 1) coords (set fws) destination dest_x dest_y fuel_capacity
             speed mode origin [] {origin} p
         \<and> length (segments p) \<le> length fws + 1
         \<and> (feasible p \<longrightarrow>
              segments p \<noteq> []
              \<and> total_fuel p = sum_list (map seg_fuel_cost (segments p))
              \<and> total_seconds p = sum_list (map seg_travel_seconds (segments p))
                  + 30 * (int (length (segments p)) - 1))
         \<and> (\<not> feasible p \<longrightarrow>
              segments p = [] \<and> total_fuel p = 0 \<and> total_seconds p = 0 \<and> reason p \<noteq> [])"
    using plan greedy len feas inf by blast
qed

theorem plan_multihop_greedy_witness:
  "''A'' \<noteq> ''C'' \<and> line_coords ''A'' \<noteq> None \<and> line_coords ''C'' = Some (80, 0)
   \<and> in_range line_coords \<and> \<bar>30 :: int\<bar> \<le> 2 ^ 1000
   \<and> plan_multihop line_coords [''B''] ''A'' ''C'' 50 30 ''CRUISE'' = Inr line_plan
   \<and> greedy_run (length [''B''] + 1) line_coords (set [''B'']) ''C'' 80 0 50 30 ''CRUISE'' ''A'' []
       {''A''} line_plan
   \<and> feasible line_plan
   \<and> length (segments line_plan) = 2
   \<and> map seg_distance (segments line_plan) = [40, 40]
   \<and> map seg_fuel_cost (segments line_plan) = [40, 40]
   \<and> total_fuel line_plan = 80
   \<and> total_seconds line_plan = 126
   \<and> ''A'' \<noteq> ''Z'' \<and> line_coords ''Z'' = None
   \<and> (\<exists>p. plan_multihop line_coords [''B''] ''A'' ''Z'' 50 30 ''CRUISE'' = Inr p \<and> gives_up p)"
proof -
  note t = plan_multihop_greedy [of line_coords "[''B'']" "''A''" 50 30 "''CRUISE''" "''C''" 80 0]
  note u = plan_multihop_greedy [of line_coords "[''B'']" "''A''" 50 30 "''CRUISE''" "''Z''" 0 0]
  have run: "plan_multihop line_coords [''B''] ''A'' ''C'' 50 30 ''CRUISE'' = Inr line_plan"
    using t by blast
  have c: "line_coords ''A'' \<noteq> None" "line_coords ''C'' = Some (80, 0)"
    by (simp_all add: line_coords_def)
  have z: "line_coords ''Z'' = None"
    by (simp add: line_coords_def)
  have sp: "\<bar>30 :: int\<bar> \<le> 2 ^ 1000"
    by simp
  have ne: "''A'' \<noteq> ''C''" "''A'' \<noteq> ''Z''"
    by simp_all
  obtain p where "plan_multihop line_coords [''B''] ''A'' ''C'' 50 30 ''CRUISE'' = Inr p"
    and g: "greedy_run (length [''B''] + 1) line_coords (set [''B'']) ''C'' 80 0 50 30 ''CRUISE''
      ''A'' [] {''A''} p"
    using t ne(1) c in_range_line sp by blast
  then have "p = line_plan"
    using run by simp
  then have "greedy_run (length [''B''] + 1) line_coords (set [''B'']) ''C'' 80 0 50 30 ''CRUISE''
      ''A'' [] {''A''} line_plan"
    using g by simp
  moreover have "feasible line_plan \<and> length (segments line_plan) = 2
      \<and> map seg_distance (segments line_plan) = [40, 40]
      \<and> map seg_fuel_cost (segments line_plan) = [40, 40]
      \<and> total_fuel line_plan = 80 \<and> total_seconds line_plan = 126"
    by (simp add: line_plan_def)
  moreover have "\<exists>p. plan_multihop line_coords [''B''] ''A'' ''Z'' 50 30 ''CRUISE'' = Inr p
      \<and> gives_up p"
    using u ne(2) z by blast
  ultimately show ?thesis
    using run c z in_range_line sp ne by blast
qed

text \<open>
  With the destination \<open>2 ^ 600\<close> away from the origin, the sum of the squares is beyond
  the doubles and \<open>math.sqrt\<close> raises \<open>OverflowError\<close> in the first iteration. With the
  destination five units away and a speed of \<open>2 ^ 1100\<close>, the division in \<open>travel_time\<close>
  raises it when the segment to the destination is planned.
\<close>

theorem plan_multihop_overflow_counterexample:
  "plan_multihop far_coords [] ''A'' ''C'' 50 30 ''CRUISE'' = Inl OverflowError
   \<and> plan_multihop near_coords [] ''A'' ''C'' 50 (2 ^ 1100) ''CRUISE'' = Inl OverflowError"
proof -
  have far: "far_coords ''A'' = Some (0, 0)" "far_coords ''C'' = Some (2 ^ 600, 0)"
    by (simp_all add: far_coords_def)
  have near: "near_coords ''A'' = Some (0, 0)" "near_coords ''C'' = Some (3, 4)"
    by (simp_all add: near_coords_def)
  have "hop_loop (Suc 0) far_coords [] ''C'' (2 ^ 600) 0 50 30 ''CRUISE'' (Suc 0) ''A'' [] {''A''}
      = Inl OverflowError"
    by (rule hop_loop_raises [where coords = far_coords and current = "''A''",
          OF far(1) distance_far])
  then have one: "plan_multihop far_coords [] ''A'' ''C'' 50 30 ''CRUISE'' = Inl OverflowError"
    unfolding plan_multihop_def by (simp only: far) simp
  have seg: "plan_segment 0 0 3 4 ''A'' ''C'' (2 ^ 1100) ''CRUISE'' = Inl OverflowError"
    unfolding plan_segment_def by (simp only: distance_5 travel_time_fast sum.case)
  have "fuel_cost 5 ''CRUISE'' \<le> 50"
    by (simp add: fuel_cost_def)
  then have "hop_loop (Suc 0) near_coords [] ''C'' 3 4 50 (2 ^ 1100) ''CRUISE'' (Suc 0) ''A'' []
      {''A''} = Inl OverflowError"
    by (rule hop_loop_segment_raises [where coords = near_coords and current = "''A''",
          OF near(1) distance_5 _ seg])
  then have two: "plan_multihop near_coords [] ''A'' ''C'' 50 (2 ^ 1100) ''CRUISE''
      = Inl OverflowError"
    unfolding plan_multihop_def by (simp only: near) simp
  show ?thesis
    using one two by simp
qed

end
